theory Spec2Isabelle
  imports Main
begin

section \<open>The timetable solver of unisync-be (src/solver/index.ts)\<close>

text \<open>
  A shallow embedding of the slot normalisation, the greedy relocation search, the
  resolution pass and the conflict reporter of \<^verbatim>\<open>src/solver/index.ts\<close>.

  Strings. A JavaScript string is a sequence of UTF-16 code units. The embedding uses
  \<^typ>\<open>string\<close>, whose characters are the code units below 256 (the Latin-1 range,
  \<^term>\<open>of_char c\<close> being the code unit): every statement below is about rows whose
  strings stay in that range. The built-in string operations the solver calls are
  modelled on that range as ECMAScript defines them.
\<close>

subsection \<open>Built-in string operations\<close>

text \<open>
  White space as \<^verbatim>\<open>String.prototype.trim\<close> and the regular expression class
  \<^verbatim>\<open>\s\<close> read it (WhiteSpace and LineTerminator): of the code units below 256 these are
  TAB, LF, VT, FF, CR, SPACE and NO-BREAK SPACE.
\<close>

definition isWhiteSpace :: "char \<Rightarrow> bool" where
  "isWhiteSpace c \<longleftrightarrow> (of_char c :: nat) \<in> {9, 10, 11, 12, 13, 32, 160}"

definition trim :: "string \<Rightarrow> string" where
  "trim s = rev (dropWhile isWhiteSpace (rev (dropWhile isWhiteSpace s)))"

text \<open>
  \<^verbatim>\<open>String.prototype.toLowerCase\<close> on the Latin-1 range: A..Z and the accented capitals
  U+00C0..U+00DE (but the multiplication sign U+00D7) move up by 32, every other code unit
  stays.
\<close>

definition toLowerCaseChar :: "char \<Rightarrow> char" where
  "toLowerCaseChar c =
     (let n = (of_char c :: nat)
      in if (65 \<le> n \<and> n \<le> 90) \<or> (192 \<le> n \<and> n \<le> 222 \<and> n \<noteq> 215)
         then char_of (n + 32) else c)"

definition toLowerCase :: "string \<Rightarrow> string" where
  "toLowerCase s = map toLowerCaseChar s"

text \<open>The class \<^verbatim>\<open>\d\<close>: the ASCII digits.\<close>

definition isDigit :: "char \<Rightarrow> bool" where
  "isDigit c \<longleftrightarrow> 48 \<le> (of_char c :: nat) \<and> (of_char c :: nat) \<le> 57"

text \<open>
  \<^verbatim>\<open>s.replace(/^period\s*/i, "P")\<close>: when the string starts with the letters of
  "period" in any case, that prefix and the white space that follows it are replaced by
  "P"; otherwise the string is returned as it is. (Without the u flag, case-insensitive
  matching never lets a code unit outside ASCII match an ASCII letter.)
\<close>

definition replacePeriodPrefix :: "string \<Rightarrow> string" where
  "replacePeriodPrefix s =
     (if toLowerCase (take 6 s) = ''period''
      then ''P'' @ dropWhile isWhiteSpace (drop 6 s)
      else s)"

text \<open>
  \<^verbatim>\<open>s.match(/(\d+)/)\<close>: the first maximal run of digits, \<^term>\<open>None\<close> when the
  string has no digit (the match is null).
\<close>

definition matchDigits :: "string \<Rightarrow> string option" where
  "matchDigits s =
     (let ds = takeWhile isDigit (dropWhile (\<lambda>c. \<not> isDigit c) s)
      in if ds = [] then None else Some ds)"

text \<open>
  \<^verbatim>\<open>parseInt\<close> on a non-empty string of digits: its decimal value. JavaScript holds
  the value in a double; rounding to the nearest double is monotone and exact on 1..6, so
  the only use made of it, the test \<^verbatim>\<open>periodNum >= 1 && periodNum <= 6\<close>, has the
  same outcome on the exact value.
\<close>

definition parseInt :: "string \<Rightarrow> nat" where
  "parseInt ds = foldl (\<lambda>n c. 10 * n + ((of_char c :: nat) - 48)) 0 ds"

text \<open>Number-to-string conversion of a natural number, as a template literal performs it.\<close>

fun numberToString :: "nat \<Rightarrow> string" where
  "numberToString n =
     (if n < 10 then [char_of (48 + n)]
      else numberToString (n div 10) @ [char_of (48 + n mod 10)])"

text \<open>\<^verbatim>\<open>s.split('-')\<close>: the segments between the hyphens; never an empty array.\<close>

fun splitHyphen :: "string \<Rightarrow> string list" where
  "splitHyphen [] = [[]]"
| "splitHyphen (c # cs) =
     (if c = CHR ''-'' then [] # splitHyphen cs
      else (case splitHyphen cs of
              seg # segs \<Rightarrow> (c # seg) # segs
            | [] \<Rightarrow> [[c]]))"

text \<open>
  \<^verbatim>\<open>xs.indexOf(x)\<close> for an array of strings and a possibly undefined argument
  (\<^term>\<open>None\<close>, which strict equality finds in no array of strings): the first index
  holding the value, \<open>-1\<close> when there is none.
\<close>

fun indexOfFrom :: "int \<Rightarrow> string list \<Rightarrow> string option \<Rightarrow> int" where
  "indexOfFrom i [] x = -1"
| "indexOfFrom i (y # ys) x = (if x = Some y then i else indexOfFrom (i + 1) ys x)"

definition indexOf :: "string list \<Rightarrow> string option \<Rightarrow> int" where
  "indexOf xs x = indexOfFrom 0 xs x"

subsection \<open>The data model\<close>

text \<open>
  \<^verbatim>\<open>TimetableRow\<close> (src/parsers/index.ts): day and period are strings, the other
  fields are optional (\<^term>\<open>None\<close> is undefined).
\<close>

record TimetableRow =
  day :: string
  period :: string
  subject :: "string option"
  teacher :: "string option"
  group :: "string option"
  room :: "string option"
  sourceFile :: "string option"

text \<open>\<^verbatim>\<open>type Assignment = TimetableRow & { assignedSlot: string }\<close>\<close>

record Assignment = TimetableRow +
  assignedSlot :: string

datatype ConflictType = TeacherConflict | RoomConflict | GroupConflict

record Conflict =
  ctype :: ConflictType
  slot :: string
  conflictingEntries :: "Assignment list"
  resource :: string

definition DAYS :: "string list" where
  "DAYS = [''Mon'', ''Tue'', ''Wed'', ''Thu'', ''Fri'']"

definition PERIODS :: "string list" where
  "PERIODS = [''P1'', ''P2'', ''P3'', ''P4'', ''P5'', ''P6'']"

text \<open>\<^verbatim>\<open>x || ""\<close> on an optional string.\<close>

definition orEmpty :: "string option \<Rightarrow> string" where
  "orEmpty x = (case x of None \<Rightarrow> [] | Some s \<Rightarrow> s)"

subsection \<open>The normaliser\<close>

text \<open>
  What \<^verbatim>\<open>normalizeDay\<close> can return at run time. \<^verbatim>\<open>dayMappings\<close> is an object
  literal, so a lookup also finds what the literal inherits from
  \<^verbatim>\<open>Object.prototype\<close>; of the inherited property names only "constructor" and
  "__proto__" are in lower case, the only ones a lower-cased key can hit. Both values are
  truthy and are returned in place of the day.
\<close>

datatype JSValue = JSString string | ObjectConstructor | ObjectPrototype

definition truthy :: "JSValue \<Rightarrow> bool" where
  "truthy v = (case v of JSString s \<Rightarrow> s \<noteq> [] | _ \<Rightarrow> True)"

text \<open>The string a template literal makes of a value (the function's text is V8's).\<close>

definition toString :: "JSValue \<Rightarrow> string" where
  "toString v =
     (case v of
        JSString s \<Rightarrow> s
      | ObjectConstructor \<Rightarrow> ''function Object() { [native code] }''
      | ObjectPrototype \<Rightarrow> ''[object Object]'')"

definition dayMappings :: "string \<Rightarrow> JSValue option" where
  "dayMappings k =
     (if k = ''monday'' then Some (JSString ''Mon'')
      else if k = ''tuesday'' then Some (JSString ''Tue'')
      else if k = ''wednesday'' then Some (JSString ''Wed'')
      else if k = ''thursday'' then Some (JSString ''Thu'')
      else if k = ''friday'' then Some (JSString ''Fri'')
      else if k = ''mon'' then Some (JSString ''Mon'')
      else if k = ''tue'' then Some (JSString ''Tue'')
      else if k = ''wed'' then Some (JSString ''Wed'')
      else if k = ''thu'' then Some (JSString ''Thu'')
      else if k = ''fri'' then Some (JSString ''Fri'')
      else if k = ''constructor'' then Some ObjectConstructor
      else if k = ''__proto__'' then Some ObjectPrototype
      else None)"

definition normalizeDay :: "string \<Rightarrow> JSValue" where
  "normalizeDay d =
     (let dayLower = toLowerCase d
      in case dayMappings dayLower of
           Some v \<Rightarrow> if truthy v then v else JSString d
         | None \<Rightarrow> JSString d)"

definition normalizePeriod :: "string \<Rightarrow> string" where
  "normalizePeriod p =
     (case matchDigits p of
        Some ds \<Rightarrow>
          (let periodNum = parseInt ds
           in if periodNum \<ge> 1 \<and> periodNum \<le> 6 then ''P'' @ numberToString periodNum
              else if p \<in> set PERIODS then p else p)
      | None \<Rightarrow> if p \<in> set PERIODS then p else p)"

definition slotFromRow :: "'a TimetableRow_scheme \<Rightarrow> string" where
  "slotFromRow r =
     (let d = trim (day r);
          p = trim (replacePeriodPrefix (period r));
          normalizedDay = normalizeDay d;
          normalizedPeriod = normalizePeriod p
      in if \<not> truthy normalizedDay \<or> normalizedPeriod = [] then []
         else toString normalizedDay @ ''-'' @ normalizedPeriod)"

subsection \<open>The occupancy index\<close>

text \<open>
  One entry of \<^verbatim>\<open>occupiedSlots\<close>: the teachers, rooms and groups committed to a slot.
\<close>

record SlotData =
  teachers :: "string set"
  rooms :: "string set"
  groups :: "string set"

type_synonym OccupiedSlots = "string \<rightharpoonup> SlotData"

definition isSlotAvailable ::
  "string \<Rightarrow> string \<Rightarrow> string \<Rightarrow> string \<Rightarrow> OccupiedSlots \<Rightarrow> bool" where
  "isSlotAvailable s t r g occupiedSlots =
     (case occupiedSlots s of
        None \<Rightarrow> True
      | Some slotData \<Rightarrow>
          (let teacherConflict = (t \<noteq> [] \<and> t \<in> teachers slotData);
               roomConflict = (r \<noteq> [] \<and> r \<in> rooms slotData);
               groupConflict = (g \<noteq> [] \<and> g \<in> groups slotData)
           in \<not> teacherConflict \<and> \<not> roomConflict \<and> \<not> groupConflict))"

definition addToSlot ::
  "string \<Rightarrow> string \<Rightarrow> string \<Rightarrow> string \<Rightarrow> OccupiedSlots \<Rightarrow> OccupiedSlots" where
  "addToSlot s t r g occupiedSlots =
     (let slotData0 = (case occupiedSlots s of
                         None \<Rightarrow> \<lparr>teachers = {}, rooms = {}, groups = {}\<rparr>
                       | Some d \<Rightarrow> d);
          slotData1 = (if t \<noteq> [] \<and> trim t \<noteq> []
                       then slotData0\<lparr>teachers := insert (trim t) (teachers slotData0)\<rparr>
                       else slotData0);
          slotData2 = (if r \<noteq> [] \<and> trim r \<noteq> []
                       then slotData1\<lparr>rooms := insert (trim r) (rooms slotData1)\<rparr>
                       else slotData1);
          slotData3 = (if g \<noteq> [] \<and> trim g \<noteq> []
                       then slotData2\<lparr>groups := insert (trim g) (groups slotData2)\<rparr>
                       else slotData2)
      in occupiedSlots(s \<mapsto> slotData3))"

subsection \<open>The relocation search\<close>

text \<open>
  The loops of \<^verbatim>\<open>findNextAvailableSlot\<close>, each returning the first available slot it
  meets (the early \<^verbatim>\<open>return slot\<close>) or \<^term>\<open>None\<close> when it runs to its end.

  \<^verbatim>\<open>for (let p = p0; p < PERIODS.length; p++)\<close> over the periods of the day named
  \<open>dayName\<close>: the first loop (with \<open>p0 = periodIndex + 1\<close>) and the inner loop of the
  second and fourth (with \<open>p0 = 0\<close>).
\<close>

function periodsUp ::
  "string \<Rightarrow> int \<Rightarrow> string \<Rightarrow> string \<Rightarrow> string \<Rightarrow> OccupiedSlots \<Rightarrow> string option" where
  "periodsUp dayName p t r g occupiedSlots =
     (if p < int (length PERIODS)
      then (let s = dayName @ ''-'' @ PERIODS ! nat p
            in if isSlotAvailable s t r g occupiedSlots then Some s
               else periodsUp dayName (p + 1) t r g occupiedSlots)
      else None)"
  by pat_completeness auto
termination
  by (relation "measure (\<lambda>(dayName, p, t, r, g, occupiedSlots). nat (int (length PERIODS) - p))")
    auto

text \<open>\<^verbatim>\<open>for (let d = d0; d < DAYS.length; d++)\<close>, all periods of each day.\<close>

function daysUp ::
  "int \<Rightarrow> string \<Rightarrow> string \<Rightarrow> string \<Rightarrow> OccupiedSlots \<Rightarrow> string option" where
  "daysUp d t r g occupiedSlots =
     (if d < int (length DAYS)
      then (case periodsUp (DAYS ! nat d) 0 t r g occupiedSlots of
              Some s \<Rightarrow> Some s
            | None \<Rightarrow> daysUp (d + 1) t r g occupiedSlots)
      else None)"
  by pat_completeness auto
termination
  by (relation "measure (\<lambda>(d, t, r, g, occupiedSlots). nat (int (length DAYS) - d))") auto

text \<open>\<^verbatim>\<open>for (let p = p0; p >= 0; p--)\<close> over the periods of the current day.\<close>

function periodsDown ::
  "string \<Rightarrow> int \<Rightarrow> string \<Rightarrow> string \<Rightarrow> string \<Rightarrow> OccupiedSlots \<Rightarrow> string option" where
  "periodsDown dayName p t r g occupiedSlots =
     (if p \<ge> 0
      then (let s = dayName @ ''-'' @ PERIODS ! nat p
            in if isSlotAvailable s t r g occupiedSlots then Some s
               else periodsDown dayName (p - 1) t r g occupiedSlots)
      else None)"
  by pat_completeness auto
termination
  by (relation "measure (\<lambda>(dayName, p, t, r, g, occupiedSlots). nat (p + 1))") auto

text \<open>\<^verbatim>\<open>for (let d = d0; d >= 0; d--)\<close>, all periods of each day.\<close>

function daysDown ::
  "int \<Rightarrow> string \<Rightarrow> string \<Rightarrow> string \<Rightarrow> OccupiedSlots \<Rightarrow> string option" where
  "daysDown d t r g occupiedSlots =
     (if d \<ge> 0
      then (case periodsUp (DAYS ! nat d) 0 t r g occupiedSlots of
              Some s \<Rightarrow> Some s
            | None \<Rightarrow> daysDown (d - 1) t r g occupiedSlots)
      else None)"
  by pat_completeness auto
termination
  by (relation "measure (\<lambda>(d, t, r, g, occupiedSlots). nat (d + 1))") auto

text \<open>
  \<^verbatim>\<open>const [currentDay, currentPeriod] = currentSlot.split('-')\<close>: the first segment,
  and the second when there is one (undefined otherwise); further segments are ignored.
\<close>

definition findNextAvailableSlot ::
  "string \<Rightarrow> string \<Rightarrow> string \<Rightarrow> string \<Rightarrow> OccupiedSlots \<Rightarrow> string option" where
  "findNextAvailableSlot currentSlot t r g occupiedSlots =
     (if currentSlot = [] then None
      else
        (let parts = splitHyphen currentSlot;
             currentDay = hd parts;
             currentPeriod = (case tl parts of [] \<Rightarrow> None | x # _ \<Rightarrow> Some x);
             dayIndex = indexOf DAYS (Some currentDay);
             periodIndex = indexOf PERIODS currentPeriod
         in if dayIndex = -1 \<or> periodIndex = -1 then None
            else
              (case periodsUp currentDay (periodIndex + 1) t r g occupiedSlots of
                 Some s \<Rightarrow> Some s
               | None \<Rightarrow>
              (case daysUp (dayIndex + 1) t r g occupiedSlots of
                 Some s \<Rightarrow> Some s
               | None \<Rightarrow>
              (case periodsDown currentDay (periodIndex - 1) t r g occupiedSlots of
                 Some s \<Rightarrow> Some s
               | None \<Rightarrow> daysDown (dayIndex - 1) t r g occupiedSlots)))))"

subsection \<open>The resolution pass\<close>

text \<open>
  A JavaScript \<^verbatim>\<open>Map\<close> from keys to arrays, in insertion order.
  \<^verbatim>\<open>if (!m.has(k)) m.set(k, []); m.get(k).push(v)\<close>:
\<close>

fun pushTo :: "'k \<Rightarrow> 'v \<Rightarrow> ('k \<times> 'v list) list \<Rightarrow> ('k \<times> 'v list) list" where
  "pushTo k v [] = [(k, [v])]"
| "pushTo k v ((k', vs) # m) =
     (if k = k' then (k', vs @ [v]) # m else (k', vs) # pushTo k v m)"

record MergeResult =
  assignments :: "Assignment list"
  conflicts :: "Conflict list"
  separatedTimetables :: "(string \<times> Assignment list) list"

text \<open>The filter of \<^verbatim>\<open>validRows\<close>.\<close>

definition validRow :: "TimetableRow \<Rightarrow> bool" where
  "validRow row =
     (let s = slotFromRow row
      in s \<noteq> [] \<and> CHR ''-'' \<in> set s \<and>
         (orEmpty (teacher row) \<noteq> [] \<or> orEmpty (room row) \<noteq> [] \<or> orEmpty (group row) \<noteq> []))"

text \<open>\<^verbatim>\<open>{ ...row, assignedSlot }\<close>\<close>

definition mkAssignment :: "TimetableRow \<Rightarrow> string \<Rightarrow> Assignment" where
  "mkAssignment row s = TimetableRow.extend row (Assignment.fields s)"

text \<open>
  The slot the first pass gives a row, from the occupancy index as the rows before it
  left it.
\<close>

definition assignSlot :: "TimetableRow \<Rightarrow> OccupiedSlots \<Rightarrow> string" where
  "assignSlot row occupiedSlots =
     (let originalSlot = slotFromRow row;
          t = trim (orEmpty (teacher row));
          r = trim (orEmpty (room row));
          g = trim (orEmpty (group row));
          hasConflict = \<not> isSlotAvailable originalSlot t r g occupiedSlots
      in if hasConflict
         then (case findNextAvailableSlot originalSlot t r g occupiedSlots of
                 Some alternativeSlot \<Rightarrow> if alternativeSlot \<noteq> [] then alternativeSlot else originalSlot
               | None \<Rightarrow> originalSlot)
         else originalSlot)"

text \<open>
  One iteration of the first pass, on the three structures it updates: the assignments,
  the per-source grouping and the occupancy index.
\<close>

type_synonym ResolveState =
  "Assignment list \<times> (string \<times> Assignment list) list \<times> OccupiedSlots"

definition resolveRow :: "ResolveState \<Rightarrow> TimetableRow \<Rightarrow> ResolveState" where
  "resolveRow st row =
     (case st of (as, separated, occupiedSlots) \<Rightarrow>
        (let s = assignSlot row occupiedSlots;
             t = trim (orEmpty (teacher row));
             r = trim (orEmpty (room row));
             g = trim (orEmpty (group row));
             src = (if orEmpty (sourceFile row) \<noteq> [] then orEmpty (sourceFile row)
                    else ''unknown'');
             assignment = mkAssignment row s
         in (as @ [assignment],
             pushTo src assignment separated,
             addToSlot s t r g occupiedSlots)))"

definition resolvePass :: "TimetableRow list \<Rightarrow> ResolveState" where
  "resolvePass rows = foldl resolveRow ([], [], Map.empty) (filter validRow rows)"

subsection \<open>The conflict reporter\<close>

text \<open>
  One of the three blocks of \<^verbatim>\<open>detectConflicts\<close> (teacher, room, group; the same code
  but for the field read): the assignments of a slot grouped by the trimmed, non-empty
  resource, and a conflict for every group of more than one.
\<close>

definition resourceMap ::
  "(Assignment \<Rightarrow> string option) \<Rightarrow> Assignment list \<Rightarrow> (string \<times> Assignment list) list" where
  "resourceMap field slotAssignments =
     foldl (\<lambda>m a. let x = trim (orEmpty (field a)) in if x \<noteq> [] then pushTo x a m else m)
       [] slotAssignments"

definition resourceConflicts ::
  "ConflictType \<Rightarrow> (Assignment \<Rightarrow> string option) \<Rightarrow> string \<Rightarrow> Assignment list \<Rightarrow> Conflict list" where
  "resourceConflicts ty field s slotAssignments =
     map (\<lambda>(x, entries). \<lparr>ctype = ty, slot = s, conflictingEntries = entries, resource = x\<rparr>)
       (filter (\<lambda>(x, entries). length entries > 1) (resourceMap field slotAssignments))"

definition slotConflicts :: "string \<times> Assignment list \<Rightarrow> Conflict list" where
  "slotConflicts e =
     (case e of (s, slotAssignments) \<Rightarrow>
        if length slotAssignments \<le> 1 then []
        else resourceConflicts TeacherConflict teacher s slotAssignments
           @ resourceConflicts RoomConflict room s slotAssignments
           @ resourceConflicts GroupConflict group s slotAssignments)"

definition slotMap :: "Assignment list \<Rightarrow> (string \<times> Assignment list) list" where
  "slotMap as =
     foldl (\<lambda>m a. if assignedSlot a = [] then m else pushTo (assignedSlot a) a m) [] as"

definition detectConflicts :: "Assignment list \<Rightarrow> Conflict list" where
  "detectConflicts as = concat (map slotConflicts (slotMap as))"

definition mergeAndResolve :: "TimetableRow list \<Rightarrow> MergeResult" where
  "mergeAndResolve rows =
     (case resolvePass rows of (as, separated, occupiedSlots) \<Rightarrow>
        \<lparr>assignments = as, conflicts = detectConflicts as, separatedTimetables = separated\<rparr>)"

text \<open>The occupancy index as the first pass leaves it (local to the call in the source).\<close>

definition finalOccupiedSlots :: "TimetableRow list \<Rightarrow> OccupiedSlots" where
  "finalOccupiedSlots rows = (case resolvePass rows of (as, separated, occupiedSlots) \<Rightarrow> occupiedSlots)"

subsection \<open>The canonical grid and the order of the search\<close>

text \<open>The key of a slot, \<^verbatim>\<open>`${day}-${period}`\<close>, and the 30 keys of the canonical grid.\<close>

definition slotKey :: "string \<Rightarrow> string \<Rightarrow> string" where
  "slotKey d p = d @ ''-'' @ p"

definition canonicalSlots :: "string list" where
  "canonicalSlots = concat (map (\<lambda>d. map (slotKey d) PERIODS) DAYS)"

text \<open>The slots of one day at the given period indices, in the order of the indices.\<close>

definition dayPeriods :: "string \<Rightarrow> nat list \<Rightarrow> string list" where
  "dayPeriods dayName ps = map (\<lambda>q. slotKey dayName (PERIODS ! q)) ps"

text \<open>
  The four phases of the search from day index \<open>di\<close> and period index \<open>pi\<close>, as lists
  of candidates: what each loop of \<^const>\<open>findNextAvailableSlot\<close> runs through.
\<close>

definition sameDayLater :: "string \<Rightarrow> nat \<Rightarrow> string list" where
  "sameDayLater currentDay pi = dayPeriods currentDay [Suc pi ..< length PERIODS]"

definition laterDays :: "nat \<Rightarrow> string list" where
  "laterDays di =
     concat (map (\<lambda>d. dayPeriods (DAYS ! d) [0 ..< length PERIODS]) [Suc di ..< length DAYS])"

definition sameDayEarlier :: "string \<Rightarrow> nat \<Rightarrow> string list" where
  "sameDayEarlier currentDay pi = dayPeriods currentDay (rev [0 ..< pi])"

definition previousDays :: "nat \<Rightarrow> string list" where
  "previousDays di =
     concat (map (\<lambda>d. dayPeriods (DAYS ! d) [0 ..< length PERIODS]) (rev [0 ..< di]))"

definition searchOrder :: "string \<Rightarrow> nat \<Rightarrow> nat \<Rightarrow> string list" where
  "searchOrder currentDay di pi =
     sameDayLater currentDay pi @ laterDays di @ sameDayEarlier currentDay pi @ previousDays di"

text \<open>The second element of \<^verbatim>\<open>currentSlot.split('-')\<close>, undefined when there is none.\<close>

definition secondSegment :: "string \<Rightarrow> string option" where
  "secondSegment s = (case tl (splitHyphen s) of [] \<Rightarrow> None | x # _ \<Rightarrow> Some x)"

text \<open>What follows the first hyphen of a key (all of it, further hyphens included).\<close>

definition afterFirstHyphen :: "string \<Rightarrow> string" where
  "afterFirstHyphen s = drop 1 (dropWhile (\<lambda>c. c \<noteq> CHR ''-'') s)"

text \<open>One occupancy index holds everything another holds.\<close>

definition occLe :: "OccupiedSlots \<Rightarrow> OccupiedSlots \<Rightarrow> bool" where
  "occLe occ occ' \<longleftrightarrow>
     (\<forall>s d. occ s = Some d \<longrightarrow>
        (\<exists>d'. occ' s = Some d' \<and> teachers d \<subseteq> teachers d' \<and> rooms d \<subseteq> rooms d'
           \<and> groups d \<subseteq> groups d'))"

text \<open>
  An assignment's trimmed, non-empty resource identities are in the occupancy index at its
  assigned slot.
\<close>

definition committed :: "Assignment \<Rightarrow> OccupiedSlots \<Rightarrow> bool" where
  "committed a occ =
     (case occ (assignedSlot a) of
        None \<Rightarrow> False
      | Some d \<Rightarrow>
          (trim (orEmpty (teacher a)) = [] \<or> trim (orEmpty (teacher a)) \<in> teachers d)
        \<and> (trim (orEmpty (room a)) = [] \<or> trim (orEmpty (room a)) \<in> rooms d)
        \<and> (trim (orEmpty (group a)) = [] \<or> trim (orEmpty (group a)) \<in> groups d))"

text \<open>
  A teacher is committed in exactly the given slots of an occupancy index, and no other
  slot has an entry.
\<close>

definition heldBy :: "string \<Rightarrow> string list \<Rightarrow> OccupiedSlots \<Rightarrow> bool" where
  "heldBy t slots occ \<longleftrightarrow>
     (\<forall>s. (s \<in> set slots \<longrightarrow> (\<exists>d. occ s = Some d \<and> t \<in> teachers d))
        \<and> (s \<notin> set slots \<longrightarrow> occ s = None))"

text \<open>Two rows agree on the fields the first pass reads to choose a slot.\<close>

definition sameSchedulingFields :: "TimetableRow \<Rightarrow> TimetableRow \<Rightarrow> bool" where
  "sameSchedulingFields r r' \<longleftrightarrow>
     day r = day r' \<and> period r = period r' \<and> teacher r = teacher r' \<and> room r = room r'
     \<and> group r = group r'"

text \<open>Rows and occupancy indexes used as concrete inputs below.\<close>

definition rowOf :: "string \<Rightarrow> string \<Rightarrow> string \<Rightarrow> TimetableRow" where
  "rowOf d p t =
     \<lparr>day = d, period = p, subject = None, teacher = Some t, group = None, room = None,
      sourceFile = None\<rparr>"

definition teacherBusy :: "string \<Rightarrow> string list \<Rightarrow> OccupiedSlots" where
  "teacherBusy t slots = foldl (\<lambda>occ s. addToSlot s t [] [] occ) Map.empty slots"

section \<open>Properties\<close>

subsection \<open>The loops of the search as a search through a list\<close>

lemma find_append_case:
  "List.find P (xs @ ys) = (case List.find P xs of Some x \<Rightarrow> Some x | None \<Rightarrow> List.find P ys)"
  by (induction xs) auto

declare periodsUp.simps [simp del] daysUp.simps [simp del]
  periodsDown.simps [simp del] daysDown.simps [simp del]

lemma periodsUp_find:
  "0 \<le> p \<Longrightarrow> periodsUp dn p t r g occ =
     List.find (\<lambda>s. isSlotAvailable s t r g occ) (dayPeriods dn [nat p ..< length PERIODS])"
proof (induction dn p t r g occ rule: periodsUp.induct)
  case (1 dn p t r g occ)
  show ?case
  proof (cases "p < int (length PERIODS)")
    case True
    then have up: "[nat p ..< length PERIODS] = nat p # [nat (p + 1) ..< length PERIODS]"
      using 1(2) by (simp add: upt_conv_Cons nat_add_distrib)
    show ?thesis
    proof (cases "isSlotAvailable (dn @ ''-'' @ PERIODS ! nat p) t r g occ")
      case avail: True
      then show ?thesis using True
        by (subst periodsUp.simps) (simp add: up dayPeriods_def slotKey_def)
    next
      case False
      have "periodsUp dn (p + 1) t r g occ =
        List.find (\<lambda>s. isSlotAvailable s t r g occ) (dayPeriods dn [nat (p + 1) ..< length PERIODS])"
        using 1(1)[OF True refl False] 1(2) by simp
      then show ?thesis using True False
        by (subst periodsUp.simps) (simp add: up dayPeriods_def slotKey_def)
    qed
  next
    case False
    then show ?thesis
      by (subst periodsUp.simps) (simp add: dayPeriods_def)
  qed
qed

lemma daysUp_find:
  "0 \<le> d \<Longrightarrow> daysUp d t r g occ =
     List.find (\<lambda>s. isSlotAvailable s t r g occ)
       (concat (map (\<lambda>d. dayPeriods (DAYS ! d) [0 ..< length PERIODS]) [nat d ..< length DAYS]))"
proof (induction d t r g occ rule: daysUp.induct)
  case (1 d t r g occ)
  show ?case
  proof (cases "d < int (length DAYS)")
    case True
    then have up: "[nat d ..< length DAYS] = nat d # [nat (d + 1) ..< length DAYS]"
      using 1(2) by (simp add: upt_conv_Cons nat_add_distrib)
    show ?thesis
    proof (cases "periodsUp (DAYS ! nat d) 0 t r g occ")
      case None
      have "daysUp (d + 1) t r g occ =
        List.find (\<lambda>s. isSlotAvailable s t r g occ)
          (concat (map (\<lambda>d. dayPeriods (DAYS ! d) [0 ..< length PERIODS]) [nat (d + 1) ..< length DAYS]))"
        using 1(1)[OF True None] 1(2) by simp
      then show ?thesis using True None periodsUp_find[of 0 "DAYS ! nat d" t r g occ]
        by (subst daysUp.simps) (simp add: up find_append_case)
    next
      case (Some s)
      then show ?thesis using True periodsUp_find[of 0 "DAYS ! nat d" t r g occ]
        by (subst daysUp.simps) (simp add: up find_append_case)
    qed
  next
    case False
    then show ?thesis by (subst daysUp.simps) simp
  qed
qed

lemma periodsDown_find:
  "-1 \<le> p \<Longrightarrow> periodsDown dn p t r g occ =
     List.find (\<lambda>s. isSlotAvailable s t r g occ) (dayPeriods dn (rev [0 ..< nat (p + 1)]))"
proof (induction dn p t r g occ rule: periodsDown.induct)
  case (1 dn p t r g occ)
  show ?case
  proof (cases "p \<ge> 0")
    case True
    then have up: "rev [0 ..< nat (p + 1)] = nat p # rev [0 ..< nat p]"
      by (simp add: nat_add_distrib)
    show ?thesis
    proof (cases "isSlotAvailable (dn @ ''-'' @ PERIODS ! nat p) t r g occ")
      case avail: True
      then show ?thesis using True
        by (subst periodsDown.simps) (simp add: up dayPeriods_def slotKey_def)
    next
      case False
      have "periodsDown dn (p - 1) t r g occ =
        List.find (\<lambda>s. isSlotAvailable s t r g occ) (dayPeriods dn (rev [0 ..< nat p]))"
        using 1(1)[OF True refl False] True by simp
      then show ?thesis using True False
        by (subst periodsDown.simps) (simp add: up dayPeriods_def slotKey_def)
    qed
  next
    case False
    then have "p = -1" using 1(2) by simp
    then show ?thesis
      by (subst periodsDown.simps) (simp add: dayPeriods_def)
  qed
qed

lemma daysDown_find:
  "-1 \<le> d \<Longrightarrow> daysDown d t r g occ =
     List.find (\<lambda>s. isSlotAvailable s t r g occ)
       (concat (map (\<lambda>d. dayPeriods (DAYS ! d) [0 ..< length PERIODS]) (rev [0 ..< nat (d + 1)])))"
proof (induction d t r g occ rule: daysDown.induct)
  case (1 d t r g occ)
  show ?case
  proof (cases "d \<ge> 0")
    case True
    then have up: "rev [0 ..< nat (d + 1)] = nat d # rev [0 ..< nat d]"
      by (simp add: nat_add_distrib)
    show ?thesis
    proof (cases "periodsUp (DAYS ! nat d) 0 t r g occ")
      case None
      have "daysDown (d - 1) t r g occ =
        List.find (\<lambda>s. isSlotAvailable s t r g occ)
          (concat (map (\<lambda>d. dayPeriods (DAYS ! d) [0 ..< length PERIODS]) (rev [0 ..< nat d])))"
        using 1(1)[OF True None] True by simp
      then show ?thesis using True None periodsUp_find[of 0 "DAYS ! nat d" t r g occ]
        by (subst daysDown.simps) (simp add: up find_append_case)
    next
      case (Some s)
      then show ?thesis using True periodsUp_find[of 0 "DAYS ! nat d" t r g occ]
        by (subst daysDown.simps) (simp add: up find_append_case)
    qed
  next
    case False
    then have "d = -1" using 1(2) by simp
    then show ?thesis by (subst daysDown.simps) simp
  qed
qed

lemma indexOfFrom_bounds:
  "indexOfFrom i xs x = -1 \<or> (i \<le> indexOfFrom i xs x \<and> indexOfFrom i xs x < i + int (length xs)
     \<and> x = Some (xs ! nat (indexOfFrom i xs x - i)))"
  if "0 \<le> i"
  using that
proof (induction xs arbitrary: i)
  case Nil
  then show ?case by simp
next
  case (Cons y ys)
  show ?case
  proof (cases "x = Some y")
    case True
    then show ?thesis by simp
  next
    case False
    have "0 \<le> i + 1" using Cons.prems by simp
    from Cons.IH[OF this] False Cons.prems show ?thesis
      by (auto simp: nat_diff_distrib' nth_Cons' nat_add_distrib)
  qed
qed

lemma indexOfFrom_minus1:
  "0 \<le> i \<Longrightarrow> indexOfFrom i xs x = -1 \<longleftrightarrow> x \<notin> Some ` set xs"
proof (induction xs arbitrary: i)
  case Nil
  then show ?case by simp
next
  case (Cons y ys)
  have "0 \<le> i + 1" using Cons.prems by simp
  from Cons.IH[OF this] Cons.prems show ?case by auto
qed

lemma indexOf_minus1: "indexOf xs x = -1 \<longleftrightarrow> x \<notin> Some ` set xs"
  by (simp add: indexOf_def indexOfFrom_minus1)

lemma indexOf_bounds:
  "indexOf xs x \<noteq> -1 \<Longrightarrow>
     0 \<le> indexOf xs x \<and> indexOf xs x < int (length xs) \<and> x = Some (xs ! nat (indexOf xs x))"
  using indexOfFrom_bounds[of 0 xs x] by (simp add: indexOf_def)

lemma findNextAvailableSlot_find:
  assumes "currentSlot \<noteq> []"
    and "indexOf DAYS (Some (hd (splitHyphen currentSlot))) \<noteq> -1"
    and "indexOf PERIODS (secondSegment currentSlot) \<noteq> -1"
  shows "findNextAvailableSlot currentSlot t r g occ =
     List.find (\<lambda>s. isSlotAvailable s t r g occ)
       (searchOrder (hd (splitHyphen currentSlot))
          (nat (indexOf DAYS (Some (hd (splitHyphen currentSlot)))))
          (nat (indexOf PERIODS (secondSegment currentSlot))))"
proof -
  let ?di = "indexOf DAYS (Some (hd (splitHyphen currentSlot)))"
  let ?pi = "indexOf PERIODS (secondSegment currentSlot)"
  have d: "0 \<le> ?di" using indexOf_bounds[OF assms(2)] by simp
  have p: "0 \<le> ?pi" using indexOf_bounds[OF assms(3)] by simp
  have n1: "nat (?pi + 1) = Suc (nat ?pi)" using p by simp
  have n2: "nat (?di + 1) = Suc (nat ?di)" using d by simp
  show ?thesis
    using assms d p
    by (simp add: findNextAvailableSlot_def Let_def secondSegment_def[symmetric]
        periodsUp_find daysUp_find periodsDown_find daysDown_find
        searchOrder_def sameDayLater_def laterDays_def sameDayEarlier_def previousDays_def
        find_append_case n1 n2 split: option.splits)
qed

lemma findNextAvailableSlot_None:
  "currentSlot = [] \<or> indexOf DAYS (Some (hd (splitHyphen currentSlot))) = -1
     \<or> indexOf PERIODS (secondSegment currentSlot) = -1
   \<Longrightarrow> findNextAvailableSlot currentSlot t r g occ = None"
  by (auto simp: findNextAvailableSlot_def Let_def secondSegment_def)

subsection \<open>Canonical slots: parsing a key and what the search covers\<close>

text \<open>Both facts are finite: they are checked on the 30 slots of the grid.\<close>

lemma canonical_parse_all:
  "list_all (\<lambda>di. list_all (\<lambda>pi.
      slotKey (DAYS ! di) (PERIODS ! pi) \<noteq> [] \<and>
      hd (splitHyphen (slotKey (DAYS ! di) (PERIODS ! pi))) = DAYS ! di \<and>
      secondSegment (slotKey (DAYS ! di) (PERIODS ! pi)) = Some (PERIODS ! pi) \<and>
      indexOf DAYS (Some (DAYS ! di)) = int di \<and>
      indexOf PERIODS (Some (PERIODS ! pi)) = int pi) [0..<6]) [0..<5]"
  by code_simp

lemma searchOrder_cover_all:
  "list_all (\<lambda>di. list_all (\<lambda>pi.
      distinct (searchOrder (DAYS ! di) di pi) \<and>
      set (searchOrder (DAYS ! di) di pi) = set canonicalSlots - {slotKey (DAYS ! di) (PERIODS ! pi)} \<and>
      length (searchOrder (DAYS ! di) di pi) = 29) [0..<6]) [0..<5]"
  by code_simp

lemma length_DAYS: "length DAYS = 5" by (simp add: DAYS_def)
lemma length_PERIODS: "length PERIODS = 6" by (simp add: PERIODS_def)

lemma canonical_parse:
  assumes "di < length DAYS" "pi < length PERIODS"
  shows "slotKey (DAYS ! di) (PERIODS ! pi) \<noteq> []"
    and "hd (splitHyphen (slotKey (DAYS ! di) (PERIODS ! pi))) = DAYS ! di"
    and "secondSegment (slotKey (DAYS ! di) (PERIODS ! pi)) = Some (PERIODS ! pi)"
    and "indexOf DAYS (Some (DAYS ! di)) = int di"
    and "indexOf PERIODS (Some (PERIODS ! pi)) = int pi"
proof -
  have mem: "di \<in> set [0..<5]" "pi \<in> set [0..<6]"
    using assms by (simp_all add: length_DAYS length_PERIODS)
  note c = canonical_parse_all[unfolded list_all_iff, THEN bspec, OF mem(1), THEN bspec, OF mem(2)]
  show "slotKey (DAYS ! di) (PERIODS ! pi) \<noteq> []"
    and "hd (splitHyphen (slotKey (DAYS ! di) (PERIODS ! pi))) = DAYS ! di"
    and "secondSegment (slotKey (DAYS ! di) (PERIODS ! pi)) = Some (PERIODS ! pi)"
    and "indexOf DAYS (Some (DAYS ! di)) = int di"
    and "indexOf PERIODS (Some (PERIODS ! pi)) = int pi"
    using c by blast+
qed

lemma searchOrder_cover:
  assumes "di < length DAYS" "pi < length PERIODS"
  shows "distinct (searchOrder (DAYS ! di) di pi)"
    and "set (searchOrder (DAYS ! di) di pi) = set canonicalSlots - {slotKey (DAYS ! di) (PERIODS ! pi)}"
    and "length (searchOrder (DAYS ! di) di pi) = 29"
proof -
  have mem: "di \<in> set [0..<5]" "pi \<in> set [0..<6]"
    using assms by (simp_all add: length_DAYS length_PERIODS)
  note c = searchOrder_cover_all[unfolded list_all_iff, THEN bspec, OF mem(1), THEN bspec, OF mem(2)]
  show "distinct (searchOrder (DAYS ! di) di pi)"
    and "set (searchOrder (DAYS ! di) di pi) = set canonicalSlots - {slotKey (DAYS ! di) (PERIODS ! pi)}"
    and "length (searchOrder (DAYS ! di) di pi) = 29"
    using c by blast+
qed

lemma findNextAvailableSlot_canonical:
  assumes "di < length DAYS" "pi < length PERIODS"
  shows "findNextAvailableSlot (slotKey (DAYS ! di) (PERIODS ! pi)) t r g occ =
     List.find (\<lambda>s. isSlotAvailable s t r g occ) (searchOrder (DAYS ! di) di pi)"
  using findNextAvailableSlot_find[of "slotKey (DAYS ! di) (PERIODS ! pi)" t r g occ]
  by (simp add: canonical_parse[OF assms])


subsection \<open>The resolution pass, one row at a time\<close>

lemma mkAssignment_simps [simp]:
  "TimetableRow.truncate (mkAssignment row s) = row"
  "assignedSlot (mkAssignment row s) = s"
  "teacher (mkAssignment row s) = teacher row"
  "room (mkAssignment row s) = room row"
  "group (mkAssignment row s) = group row"
  "day (mkAssignment row s) = day row"
  "period (mkAssignment row s) = period row"
  by (simp_all add: mkAssignment_def TimetableRow.defs Assignment.defs)

lemma slotFromRow_mkAssignment: "slotFromRow (mkAssignment row s) = slotFromRow row"
  by (simp add: slotFromRow_def)

lemma resolveRow_simps:
  "fst (resolveRow (as, sep, occ) row) = as @ [mkAssignment row (assignSlot row occ)]"
  "snd (snd (resolveRow (as, sep, occ) row)) =
     addToSlot (assignSlot row occ) (trim (orEmpty (teacher row))) (trim (orEmpty (room row)))
       (trim (orEmpty (group row))) occ"
  "fst (snd (resolveRow (as, sep, occ) row)) =
     pushTo (if orEmpty (sourceFile row) \<noteq> [] then orEmpty (sourceFile row) else ''unknown'')
       (mkAssignment row (assignSlot row occ)) sep"
  by (simp_all add: resolveRow_def Let_def)

lemma foldl_resolveRow_all:
  assumes "\<forall>a \<in> set (fst st). Q a"
    and "\<And>row occ. row \<in> set vs \<Longrightarrow> Q (mkAssignment row (assignSlot row occ))"
  shows "\<forall>a \<in> set (fst (foldl resolveRow st vs)). Q a"
  using assms
proof (induction vs arbitrary: st)
  case Nil
  then show ?case by simp
next
  case (Cons r rs)
  obtain as sep occ where st: "st = (as, sep, occ)" by (cases st)
  have "\<forall>a \<in> set (fst (resolveRow st r)). Q a"
    using Cons.prems by (simp add: st resolveRow_simps)
  from Cons.IH[OF this] Cons.prems(2) show ?case by simp
qed

lemma foldl_resolveRow_rows:
  "map TimetableRow.truncate (fst (foldl resolveRow st vs)) =
     map TimetableRow.truncate (fst st) @ vs"
proof (induction vs arbitrary: st)
  case Nil
  then show ?case by simp
next
  case (Cons r rs)
  obtain as sep occ where st: "st = (as, sep, occ)" by (cases st)
  show ?case by (simp add: Cons.IH st resolveRow_simps)
qed

lemma assignments_mergeAndResolve:
  "assignments (mergeAndResolve rows) = fst (resolvePass rows)"
  by (simp add: mergeAndResolve_def split: prod.splits)

lemma findNextAvailableSlot_None_iff_guard:
  "s = [] \<or> hd (splitHyphen s) \<notin> set DAYS \<or> secondSegment s \<notin> Some ` set PERIODS
   \<Longrightarrow> findNextAvailableSlot s t r g occ = None"
  using findNextAvailableSlot_None[of s t r g occ]
  by (auto simp: indexOf_minus1)

lemma assignSlot_cases:
  "assignSlot row occ = slotFromRow row \<or>
   findNextAvailableSlot (slotFromRow row) (trim (orEmpty (teacher row)))
     (trim (orEmpty (room row))) (trim (orEmpty (group row))) occ = Some (assignSlot row occ)"
  by (simp add: assignSlot_def Let_def split: option.splits)

subsection \<open>An occupancy index in which one teacher is busy in given slots\<close>

lemma teacherBusy_lookup:
  assumes "t \<noteq> []" and "trim t = t"
  shows "teacherBusy t slots s =
     (if s \<in> set slots then Some \<lparr>teachers = {t}, rooms = {}, groups = {}\<rparr> else None)"
proof (induction slots arbitrary: s rule: rev_induct)
  case Nil
  then show ?case by (simp add: teacherBusy_def)
next
  case (snoc x xs)
  have step: "teacherBusy t (xs @ [x]) = addToSlot x t [] [] (teacherBusy t xs)"
    by (simp add: teacherBusy_def)
  show ?case
    unfolding step using snoc assms
    by (simp add: addToSlot_def Let_def)
qed

lemma teacherBusy_available:
  assumes "t \<noteq> []" and "trim t = t"
  shows "isSlotAvailable s t [] [] (teacherBusy t slots) \<longleftrightarrow> s \<notin> set slots"
  by (simp add: isSlotAvailable_def teacherBusy_lookup[OF assms] assms(1))

subsection \<open>The normaliser and the validity gate\<close>

lemma truthy_normalizeDay: "truthy (normalizeDay d) \<longleftrightarrow> d \<noteq> []"
proof (cases "d = []")
  case True
  then show ?thesis
    by (simp add: normalizeDay_def toLowerCase_def dayMappings_def truthy_def)
next
  case False
  then show ?thesis
    by (auto simp: normalizeDay_def Let_def truthy_def split: option.splits)
qed

lemma normalizePeriod_empty: "normalizePeriod p = [] \<longleftrightarrow> p = []"
  by (auto simp: normalizePeriod_def matchDigits_def Let_def split: option.splits if_splits)

lemma slotFromRow_eq:
  "slotFromRow r =
     (if trim (day r) = [] \<or> trim (replacePeriodPrefix (period r)) = [] then []
      else slotKey (toString (normalizeDay (trim (day r))))
             (normalizePeriod (trim (replacePeriodPrefix (period r)))))"
  by (simp add: slotFromRow_def Let_def truthy_normalizeDay normalizePeriod_empty slotKey_def)

lemma slotKey_nonempty: "slotKey d p \<noteq> []" and slotKey_hyphen: "CHR ''-'' \<in> set (slotKey d p)"
  by (simp_all add: slotKey_def)

lemma slotFromRow_hyphen: "slotFromRow r \<noteq> [] \<Longrightarrow> CHR ''-'' \<in> set (slotFromRow r)"
  by (simp add: slotFromRow_eq slotKey_hyphen split: if_splits)

lemma slotKey_canonical:
  "d \<in> set DAYS \<Longrightarrow> p \<in> set PERIODS \<Longrightarrow> slotKey d p \<in> set canonicalSlots"
  by (auto simp: canonicalSlots_def)

lemma canonical_nonempty: "s \<in> set canonicalSlots \<Longrightarrow> s \<noteq> []"
  by (auto simp: canonicalSlots_def slotKey_def)

lemma DAYS_nonempty: "d \<in> set DAYS \<Longrightarrow> d \<noteq> []"
  by (auto simp: DAYS_def)

lemma PERIODS_nonempty: "p \<in> set PERIODS \<Longrightarrow> p \<noteq> []"
  by (auto simp: PERIODS_def)

lemma normalizeDay_canonical_nonempty:
  "toString (normalizeDay d) \<in> set DAYS \<Longrightarrow> d \<noteq> []"
  by (auto simp: normalizeDay_def toLowerCase_def dayMappings_def toString_def DAYS_def)

subsection \<open>What the first pass assigns\<close>

lemma findNextAvailableSlot_Some_canonical:
  assumes "findNextAvailableSlot s t r g occ = Some x"
  shows "x \<in> set canonicalSlots"
proof -
  let ?cd = "hd (splitHyphen s)"
  let ?di = "indexOf DAYS (Some ?cd)" and ?pi = "indexOf PERIODS (secondSegment s)"
  have g: "s \<noteq> []" "?di \<noteq> -1" "?pi \<noteq> -1"
    using assms findNextAvailableSlot_None[of s t r g occ] by auto
  have di: "0 \<le> ?di" "nat ?di < length DAYS" "?cd = DAYS ! nat ?di"
    using indexOf_bounds[OF g(2)] by (simp_all add: nat_less_iff)
  have pi: "nat ?pi < length PERIODS"
    using indexOf_bounds[OF g(3)] by (simp add: nat_less_iff)
  have "List.find (\<lambda>c. isSlotAvailable c t r g occ) (searchOrder ?cd (nat ?di) (nat ?pi)) = Some x"
    using findNextAvailableSlot_find[OF g, of t r g occ] assms by simp
  then have "x \<in> set (searchOrder ?cd (nat ?di) (nat ?pi))"
    unfolding find_Some_iff by auto
  then have "x \<in> set (searchOrder (DAYS ! nat ?di) (nat ?di) (nat ?pi))"
    using di(3) by simp
  then show ?thesis
    unfolding searchOrder_cover(2)[OF di(2) pi] by simp
qed

lemma assignSlot_shape:
  "assignSlot row occ = slotFromRow row \<or> assignSlot row occ \<in> set canonicalSlots"
  using assignSlot_cases[of row occ] findNextAvailableSlot_Some_canonical by blast

lemma assignSlot_nonempty: "slotFromRow row \<noteq> [] \<Longrightarrow> assignSlot row occ \<noteq> []"
  using assignSlot_shape[of row occ] canonical_nonempty by auto

lemma validRow_iff:
  "validRow row \<longleftrightarrow>
     slotFromRow row \<noteq> [] \<and>
     (orEmpty (teacher row) \<noteq> [] \<or> orEmpty (room row) \<noteq> [] \<or> orEmpty (group row) \<noteq> [])"
  using slotFromRow_hyphen[of row] by (auto simp: validRow_def Let_def)

lemma two_rows_Mon_P1:
  "map assignedSlot (assignments (mergeAndResolve
      [rowOf ''Mon'' ''P1'' ''T'', rowOf ''Mon'' ''P1'' ''T''])) = [''Mon-P1'', ''Mon-P2'']"
  by code_simp

subsection \<open>Maps in insertion order and the conflict reporter\<close>


lemma pushTo_keys: "fst ` set (pushTo k v m) = insert k (fst ` set m)"
proof (induction m)
  case Nil
  then show ?case by simp
next
  case (Cons e m)
  obtain k' vs where e: "e = (k', vs)" by (cases e)
  show ?case
  proof (cases "k = k'")
    case True
    then show ?thesis by (simp add: e)
  next
    case False
    then show ?thesis by (simp add: e Cons.IH insert_commute)
  qed
qed

lemma pushTo_distinct: "distinct (map fst m) \<Longrightarrow> distinct (map fst (pushTo k v m))"
proof (induction m)
  case Nil
  then show ?case by simp
next
  case (Cons e m)
  obtain k' vs where e: "e = (k', vs)" by (cases e)
  have "fst ` set (pushTo k v m) = insert k (fst ` set m)" by (rule pushTo_keys)
  then show ?case using Cons by (simp add: e)
qed

lemma pushTo_map_of:
  "map_of (pushTo k v m) =
     (map_of m)(k \<mapsto> (case map_of m k of None \<Rightarrow> [] | Some vs \<Rightarrow> vs) @ [v])"
  by (induction m) (auto simp: fun_eq_iff)

lemma pushTo_values:
  "(\<Union>e \<in> set (pushTo k v m). set (snd e)) = insert v (\<Union>e \<in> set m. set (snd e))"
proof (induction m)
  case Nil
  then show ?case by simp
next
  case (Cons e m)
  obtain k' vs where e: "e = (k', vs)" by (cases e)
  show ?case
  proof (cases "k = k'")
    case True
    then show ?thesis by (simp add: e)
  next
    case False
    then show ?thesis by (simp add: e Cons.IH)
  qed
qed

lemma group_distinct:
  "distinct (map fst (foldl (\<lambda>m a. if P a then pushTo (f a) a m else m) [] xs))"
  by (induction xs rule: rev_induct) (simp_all add: pushTo_distinct)

lemma group_map_of:
  "map_of (foldl (\<lambda>m a. if P a then pushTo (f a) a m else m) [] xs) k =
     (if filter (\<lambda>a. P a \<and> f a = k) xs = [] then None
      else Some (filter (\<lambda>a. P a \<and> f a = k) xs))"
  by (induction xs arbitrary: k rule: rev_induct) (auto simp: pushTo_map_of)

lemma group_mem:
  "(k, es) \<in> set (foldl (\<lambda>m a. if P a then pushTo (f a) a m else m) [] xs) \<longleftrightarrow>
     es = filter (\<lambda>a. P a \<and> f a = k) xs \<and> es \<noteq> []"
  using map_of_eq_Some_iff[OF group_distinct[of P f xs], of k es] group_map_of[of P f xs k]
  by (auto split: if_splits)

lemma slotMap_mem:
  "(s, sas) \<in> set (slotMap as) \<longleftrightarrow>
     sas = filter (\<lambda>a. assignedSlot a \<noteq> [] \<and> assignedSlot a = s) as \<and> sas \<noteq> []"
proof -
  have "slotMap as = foldl (\<lambda>m a. if assignedSlot a \<noteq> [] then pushTo (assignedSlot a) a m else m) [] as"
    unfolding slotMap_def by (rule arg_cong[where f = "\<lambda>h. foldl h [] as"]) (simp add: fun_eq_iff)
  then show ?thesis using group_mem[of s sas "\<lambda>a. assignedSlot a \<noteq> []" assignedSlot as] by simp
qed

lemma resourceMap_mem:
  "(x, es) \<in> set (resourceMap field sas) \<longleftrightarrow>
     es = filter (\<lambda>a. trim (orEmpty (field a)) \<noteq> [] \<and> trim (orEmpty (field a)) = x) sas
     \<and> es \<noteq> []"
  using group_mem[of x es "\<lambda>a. trim (orEmpty (field a)) \<noteq> []" "\<lambda>a. trim (orEmpty (field a))" sas]
  by (simp add: resourceMap_def Let_def)

lemma resourceConflicts_mem:
  "c \<in> set (resourceConflicts ty field s sas) \<longleftrightarrow>
     ctype c = ty \<and> slot c = s \<and> resource c \<noteq> []
     \<and> conflictingEntries c = filter (\<lambda>a. trim (orEmpty (field a)) = resource c) sas
     \<and> length (conflictingEntries c) > 1"
  (is "?L \<longleftrightarrow> ?R")
proof
  assume ?L
  then obtain x es where m: "(x, es) \<in> set (resourceMap field sas)" "length es > 1"
    and c: "c = \<lparr>ctype = ty, slot = s, conflictingEntries = es, resource = x\<rparr>"
    by (auto simp: resourceConflicts_def)
  from m(1)[unfolded resourceMap_mem]
  have es: "es = filter (\<lambda>a. trim (orEmpty (field a)) \<noteq> [] \<and> trim (orEmpty (field a)) = x) sas"
    "es \<noteq> []" by blast+
  have all: "\<forall>a \<in> set es. trim (orEmpty (field a)) \<noteq> [] \<and> trim (orEmpty (field a)) = x"
    by (subst es(1)) auto
  from es(2) obtain a where a: "a \<in> set es" by (cases es) auto
  from all a have "trim (orEmpty (field a)) \<noteq> []" "trim (orEmpty (field a)) = x" by blast+
  then have x: "x \<noteq> []" by auto
  then have "es = filter (\<lambda>a. trim (orEmpty (field a)) = x) sas"
    using es(1) by (auto intro: filter_cong)
  then show ?R using c m(2) x by simp
next
  assume r: ?R
  let ?es = "conflictingEntries c" and ?x = "resource c"
  have "?es = filter (\<lambda>a. trim (orEmpty (field a)) \<noteq> [] \<and> trim (orEmpty (field a)) = ?x) sas"
    using r by (auto intro: filter_cong)
  moreover have "?es \<noteq> []" using r by auto
  ultimately have "(?x, ?es) \<in> set (resourceMap field sas)" by (simp add: resourceMap_mem)
  moreover have "c = \<lparr>ctype = ty, slot = s, conflictingEntries = ?es, resource = ?x\<rparr>"
    using r by simp
  ultimately show ?L using r
    by (force simp: resourceConflicts_def)
qed

lemma length_filter_two:
  assumes "i < j" "j < length xs" "P (xs ! i)" "P (xs ! j)"
  shows "length (filter P xs) > 1"
proof -
  have "{i, j} \<subseteq> {k. k < length xs \<and> P (xs ! k)}" using assms by auto
  then have "card {i, j} \<le> card {k. k < length xs \<and> P (xs ! k)}"
    by (intro card_mono) auto
  then show ?thesis using assms(1) by (simp add: length_filter_conv_card)
qed

lemma detectConflicts_mem:
  "c \<in> set (detectConflicts as) \<longleftrightarrow>
     (\<exists>s sas. (s, sas) \<in> set (slotMap as) \<and> length sas > 1 \<and>
        (c \<in> set (resourceConflicts TeacherConflict teacher s sas)
         \<or> c \<in> set (resourceConflicts RoomConflict room s sas)
         \<or> c \<in> set (resourceConflicts GroupConflict group s sas)))"
  by (auto simp: detectConflicts_def slotConflicts_def split: if_splits) force+

lemma conflicts_mergeAndResolve:
  "conflicts (mergeAndResolve rows) = detectConflicts (assignments (mergeAndResolve rows))"
  by (simp add: mergeAndResolve_def split: prod.splits)

lemma separatedTimetables_mergeAndResolve:
  "separatedTimetables (mergeAndResolve rows) = fst (snd (resolvePass rows))"
  by (simp add: mergeAndResolve_def split: prod.splits)

lemma assignments_rows:
  "map TimetableRow.truncate (assignments (mergeAndResolve rows)) = filter validRow rows"
  by (simp add: assignments_mergeAndResolve resolvePass_def foldl_resolveRow_rows)

lemma assignments_slot_shape:
  "\<forall>a \<in> set (assignments (mergeAndResolve rows)).
      assignedSlot a \<noteq> []
    \<and> (assignedSlot a = slotFromRow a \<or> assignedSlot a \<in> set canonicalSlots)"
  unfolding assignments_mergeAndResolve resolvePass_def
proof (rule foldl_resolveRow_all)
  show "\<forall>a\<in>set (fst ([], [], Map.empty)). assignedSlot a \<noteq> []
    \<and> (assignedSlot a = slotFromRow a \<or> assignedSlot a \<in> set canonicalSlots)"
    by simp
next
  fix row occ
  assume "row \<in> set (filter validRow rows)"
  then have "slotFromRow row \<noteq> []" by (simp add: validRow_iff)
  then show "assignedSlot (mkAssignment row (assignSlot row occ)) \<noteq> []
    \<and> (assignedSlot (mkAssignment row (assignSlot row occ))
          = slotFromRow (mkAssignment row (assignSlot row occ))
        \<or> assignedSlot (mkAssignment row (assignSlot row occ)) \<in> set canonicalSlots)"
    using assignSlot_shape[of row occ] assignSlot_nonempty[of row occ]
    by (auto simp: slotFromRow_mkAssignment)
qed

lemma teacher_truncate: "teacher (TimetableRow.truncate a) = teacher a"
  by (simp add: TimetableRow.truncate_def)

lemma detectConflicts_teacher:
  assumes "i < j" and "j < length as"
    and "assignedSlot (as ! i) = s" and "assignedSlot (as ! j) = s" and "s \<noteq> []"
    and "trim (orEmpty (teacher (as ! i))) = t" and "trim (orEmpty (teacher (as ! j))) = t"
    and "t \<noteq> []"
  shows "\<lparr>ctype = TeacherConflict, slot = s,
           conflictingEntries =
             filter (\<lambda>a. assignedSlot a = s \<and> trim (orEmpty (teacher a)) = t) as,
           resource = t\<rparr> \<in> set (detectConflicts as)"
proof -
  let ?sas = "filter (\<lambda>a. assignedSlot a \<noteq> [] \<and> assignedSlot a = s) as"
  let ?es = "filter (\<lambda>a. assignedSlot a = s \<and> trim (orEmpty (teacher a)) = t) as"
  let ?c = "\<lparr>ctype = TeacherConflict, slot = s, conflictingEntries = ?es, resource = t\<rparr>"
  have l1: "length ?sas > 1"
    using assms by (intro length_filter_two[of i j]) simp_all
  then have "?sas \<noteq> []" by auto
  then have m: "(s, ?sas) \<in> set (slotMap as)" by (simp add: slotMap_mem)
  have l2: "length ?es > 1"
    using assms by (intro length_filter_two[of i j]) simp_all
  have e: "?es = filter (\<lambda>a. trim (orEmpty (teacher a)) = t) ?sas"
    using assms(5) by (auto intro: filter_cong)
  have "?c \<in> set (resourceConflicts TeacherConflict teacher s ?sas)"
    unfolding resourceConflicts_mem using l2 e assms(8) by simp
  then show ?thesis
    unfolding detectConflicts_mem using m l1 by blast
qed

subsection \<open>Commitments to the occupancy index\<close>

lemma dropWhile_take_hd:
  assumes "xs = [] \<or> \<not> P (hd xs)"
  shows "dropWhile P (take k xs) = take k xs"
proof (cases xs)
  case Nil
  then show ?thesis by simp
next
  case (Cons x xs')
  then have "\<not> P x" using assms by simp
  then show ?thesis using Cons by (cases k) simp_all
qed

lemma trim_take: "\<exists>k. trim s = take k (dropWhile isWhiteSpace s)"
proof -
  let ?u = "dropWhile isWhiteSpace s"
  obtain n where "dropWhile isWhiteSpace (rev ?u) = drop n (rev ?u)"
    by (metis dropWhile_eq_drop)
  then have "trim s = take (length ?u - n) ?u"
    by (simp add: trim_def rev_drop)
  then show ?thesis by blast
qed

lemma trim_idem: "trim (trim s) = trim s"
proof -
  let ?u = "dropWhile isWhiteSpace s"
  obtain k where k: "trim s = take k ?u" using trim_take by blast
  have "?u = [] \<or> \<not> isWhiteSpace (hd ?u)" using hd_dropWhile[of isWhiteSpace s] by blast
  then have 1: "dropWhile isWhiteSpace (trim s) = trim s"
    unfolding k by (rule dropWhile_take_hd)
  have 2: "dropWhile isWhiteSpace (rev (trim s)) = rev (trim s)"
    by (simp add: trim_def[of s] dropWhile_idem)
  show ?thesis
    unfolding trim_def[of "trim s"] 1 2 by simp
qed

lemma occLe_refl: "occLe occ occ"
  by (simp add: occLe_def)

lemma occLe_trans: "occLe a b \<Longrightarrow> occLe b c \<Longrightarrow> occLe a c"
  unfolding occLe_def by (meson subset_trans)

lemma addToSlot_mono: "occLe occ (addToSlot s t r g occ)"
  by (auto simp: occLe_def addToSlot_def Let_def)

lemma addToSlot_idem: "addToSlot s t r g (addToSlot s t r g occ) = addToSlot s t r g occ"
  by (simp add: addToSlot_def Let_def)

lemma committed_mono:
  assumes "committed a occ" and "occLe occ occ'"
  shows "committed a occ'"
proof -
  from assms(1) obtain d where d: "occ (assignedSlot a) = Some d"
    and m: "trim (orEmpty (teacher a)) = [] \<or> trim (orEmpty (teacher a)) \<in> teachers d"
      "trim (orEmpty (room a)) = [] \<or> trim (orEmpty (room a)) \<in> rooms d"
      "trim (orEmpty (group a)) = [] \<or> trim (orEmpty (group a)) \<in> groups d"
    by (auto simp: committed_def split: option.splits)
  from assms(2) d obtain d' where d': "occ' (assignedSlot a) = Some d'"
    and s: "teachers d \<subseteq> teachers d'" "rooms d \<subseteq> rooms d'" "groups d \<subseteq> groups d'"
    unfolding occLe_def by blast
  show ?thesis
    unfolding committed_def d' using m s by auto
qed

lemma addToSlot_commits:
  "committed (mkAssignment row s)
     (addToSlot s (trim (orEmpty (teacher row))) (trim (orEmpty (room row)))
        (trim (orEmpty (group row))) occ)"
  by (simp add: committed_def addToSlot_def Let_def trim_idem)

lemma foldl_resolveRow_committed:
  assumes "\<forall>a \<in> set (fst st). committed a (snd (snd st))"
  shows "\<forall>a \<in> set (fst (foldl resolveRow st vs)). committed a (snd (snd (foldl resolveRow st vs)))"
  using assms
proof (induction vs arbitrary: st)
  case Nil
  then show ?case by simp
next
  case (Cons r rs)
  obtain as sep occ where st: "st = (as, sep, occ)" by (cases st)
  have "\<forall>a \<in> set (fst (resolveRow st r)). committed a (snd (snd (resolveRow st r)))"
  proof
    fix a assume "a \<in> set (fst (resolveRow st r))"
    then consider "a \<in> set as" | "a = mkAssignment r (assignSlot r occ)"
      by (auto simp: st resolveRow_simps)
    then show "committed a (snd (snd (resolveRow st r)))"
    proof cases
      case 1
      then have "committed a occ" using Cons.prems by (simp add: st)
      then show ?thesis
        unfolding st resolveRow_simps by (rule committed_mono) (rule addToSlot_mono)
    next
      case 2
      then show ?thesis
        unfolding st resolveRow_simps by (simp only: addToSlot_commits)
    qed
  qed
  from Cons.IH[OF this] show ?case by simp
qed

lemma foldl_resolveRow_occLe:
  "occLe (snd (snd st)) (snd (snd (foldl resolveRow st vs)))"
proof (induction vs arbitrary: st)
  case Nil
  then show ?case by (simp add: occLe_refl)
next
  case (Cons r rs)
  obtain as sep occ where st: "st = (as, sep, occ)" by (cases st)
  have "occLe (snd (snd st)) (snd (snd (resolveRow st r)))"
    by (simp add: st resolveRow_simps addToSlot_mono)
  from occLe_trans[OF this Cons.IH[of "resolveRow st r"]] show ?case by simp
qed

lemma finalOccupiedSlots_eq: "finalOccupiedSlots rows = snd (snd (resolvePass rows))"
  by (simp add: finalOccupiedSlots_def split: prod.splits)

subsection \<open>Where the assignments go\<close>

lemma foldl_resolveRow_separated:
  assumes "(\<Union>e \<in> set (fst (snd st)). set (snd e)) = set (fst st)"
  shows "(\<Union>e \<in> set (fst (snd (foldl resolveRow st vs))). set (snd e))
         = set (fst (foldl resolveRow st vs))"
  using assms
proof (induction vs arbitrary: st)
  case Nil
  then show ?case by simp
next
  case (Cons r rs)
  obtain as sep occ where st: "st = (as, sep, occ)" by (cases st)
  have "(\<Union>e \<in> set (fst (snd (resolveRow st r))). set (snd e)) = set (fst (resolveRow st r))"
    using Cons.prems unfolding st resolveRow_simps pushTo_values by simp
  from Cons.IH[OF this] show ?case by simp
qed

lemma detectConflicts_entries:
  assumes "c \<in> set (detectConflicts as)"
  shows "set (conflictingEntries c) \<subseteq> set as"
proof -
  from assms obtain s sas where m: "(s, sas) \<in> set (slotMap as)"
    and c: "c \<in> set (resourceConflicts TeacherConflict teacher s sas)
         \<or> c \<in> set (resourceConflicts RoomConflict room s sas)
         \<or> c \<in> set (resourceConflicts GroupConflict group s sas)"
    unfolding detectConflicts_mem by blast
  from m have "set sas \<subseteq> set as" unfolding slotMap_mem by auto
  moreover from c have "set (conflictingEntries c) \<subseteq> set sas"
    unfolding resourceConflicts_mem by auto
  ultimately show ?thesis by blast
qed

subsection \<open>A run of rows that all ask for Mon-P1 with teacher T\<close>

lemma find_first_index:
  "n < length xs \<Longrightarrow> (\<forall>m<n. \<not> P (xs ! m)) \<Longrightarrow> P (xs ! n) \<Longrightarrow> List.find P xs = Some (xs ! n)"
proof (induction xs arbitrary: n)
  case Nil
  then show ?case by simp
next
  case (Cons x xs)
  show ?case
  proof (cases n)
    case 0
    then show ?thesis using Cons.prems by simp
  next
    case (Suc k)
    have "\<not> P x" using Cons.prems(2) Suc by force
    moreover have "List.find P xs = Some (xs ! k)"
      using Cons.prems Suc by (intro Cons.IH) auto
    ultimately show ?thesis using Suc by simp
  qed
qed

lemma filter_distinct_key:
  "distinct (map f xs) \<Longrightarrow> length (filter (\<lambda>a. f a = s) xs) \<le> 1"
proof (induction xs)
  case Nil
  then show ?case by simp
next
  case (Cons x xs)
  show ?case
  proof (cases "f x = s")
    case True
    have "f x \<notin> f ` set xs" using Cons.prems by simp
    then have "\<forall>a \<in> set xs. f a \<noteq> s" using True by (metis imageI)
    then have "filter (\<lambda>a. f a = s) xs = []"
      by (simp add: filter_empty_conv)
    then show ?thesis using True by simp
  next
    case False
    then show ?thesis using Cons by simp
  qed
qed

lemma detectConflicts_distinct_slots:
  assumes "distinct (map assignedSlot as)"
  shows "detectConflicts as = []"
proof -
  have "c \<notin> set (detectConflicts as)" for c
  proof
    assume "c \<in> set (detectConflicts as)"
    then obtain s sas where m: "(s, sas) \<in> set (slotMap as)" and l: "length sas > 1"
      unfolding detectConflicts_mem by blast
    from m have "sas = filter (\<lambda>a. assignedSlot a \<noteq> [] \<and> assignedSlot a = s) as"
      unfolding slotMap_mem by blast
    then have "sas = filter (\<lambda>a. assignedSlot a \<noteq> []) (filter (\<lambda>a. assignedSlot a = s) as)"
      by (simp add: conj_commute)
    then have "length sas \<le> length (filter (\<lambda>a. assignedSlot a = s) as)"
      by (simp only: length_filter_le)
    then show False using l filter_distinct_key[OF assms, of s] by simp
  qed
  then show ?thesis by (cases "detectConflicts as") auto
qed

lemma canonicalSlots_list:
  "canonicalSlots =
     [''Mon-P1'', ''Mon-P2'', ''Mon-P3'', ''Mon-P4'', ''Mon-P5'', ''Mon-P6'',
      ''Tue-P1'', ''Tue-P2'', ''Tue-P3'', ''Tue-P4'', ''Tue-P5'', ''Tue-P6'',
      ''Wed-P1'', ''Wed-P2'', ''Wed-P3'', ''Wed-P4'', ''Wed-P5'', ''Wed-P6'',
      ''Thu-P1'', ''Thu-P2'', ''Thu-P3'', ''Thu-P4'', ''Thu-P5'', ''Thu-P6'',
      ''Fri-P1'', ''Fri-P2'', ''Fri-P3'', ''Fri-P4'', ''Fri-P5'', ''Fri-P6'']"
  by code_simp

lemma canonicalSlots_distinct: "distinct canonicalSlots"
  by code_simp

lemma canonicalSlots_length: "length canonicalSlots = 30"
  by code_simp

lemma searchOrder_Mon_P1: "searchOrder (DAYS ! 0) 0 0 = tl canonicalSlots"
  by code_simp

lemma slotKey_Mon_P1: "slotKey (DAYS ! 0) (PERIODS ! 0) = ''Mon-P1''"
  by code_simp

lemma canonicalSlots_0: "canonicalSlots ! 0 = ''Mon-P1''"
  by code_simp

lemma trim_T: "trim ''T'' = ''T''"
  by code_simp

lemma slotFromRow_Mon_P1:
  assumes "day row = ''Mon''" and "period row = ''P1''"
  shows "slotFromRow row = ''Mon-P1''"
proof -
  have "slotFromRow row = slotFromRow (rowOf ''Mon'' ''P1'' [])"
    by (simp add: slotFromRow_def rowOf_def assms)
  also have "\<dots> = ''Mon-P1''" by code_simp
  finally show ?thesis .
qed

lemma nth_notin_take:
  assumes "distinct xs" and "k < length xs"
  shows "xs ! k \<notin> set (take k xs)"
proof
  assume "xs ! k \<in> set (take k xs)"
  then obtain i where "i < k" "take k xs ! i = xs ! k"
    by (auto simp: in_set_conv_nth)
  then have "xs ! i = xs ! k" "i < length xs" using assms(2) by simp_all
  then show False using assms \<open>i < k\<close> by (simp add: nth_eq_iff_index_eq)
qed

lemma nth_in_take: "i < k \<Longrightarrow> k \<le> length xs \<Longrightarrow> xs ! i \<in> set (take k xs)"
  by (metis length_take min.absorb2 nth_mem nth_take)

lemma heldBy_available:
  assumes "heldBy t slots occ" and "t \<noteq> []"
  shows "isSlotAvailable s t r g occ \<longleftrightarrow> s \<notin> set slots"
proof (cases "s \<in> set slots")
  case True
  then obtain d where "occ s = Some d" "t \<in> teachers d"
    using assms(1) unfolding heldBy_def by blast
  then show ?thesis using True assms(2) by (simp add: isSlotAvailable_def)
next
  case False
  then have "occ s = None" using assms(1) unfolding heldBy_def by blast
  then show ?thesis using False by (simp add: isSlotAvailable_def)
qed

lemma assignSlot_Mon_P1_T:
  assumes "day row = ''Mon''" and "period row = ''P1''" and "teacher row = Some ''T''"
    and "k < 30" and "heldBy ''T'' (take k canonicalSlots) occ"
  shows "assignSlot row occ = canonicalSlots ! k"
proof -
  let ?r = "trim (orEmpty (room row))" and ?g = "trim (orEmpty (group row))"
  let ?avail = "\<lambda>s. isSlotAvailable s ''T'' ?r ?g occ"
  have t: "trim (orEmpty (teacher row)) = ''T''" by (simp add: assms(3) orEmpty_def trim_T)
  have s: "slotFromRow row = ''Mon-P1''" using assms(1,2) by (rule slotFromRow_Mon_P1)
  have av: "?avail c \<longleftrightarrow> c \<notin> set (take k canonicalSlots)" for c
    using heldBy_available[OF assms(5), of c ?r ?g] by simp
  show ?thesis
  proof (cases k)
    case 0
    then have "?avail ''Mon-P1''" by (simp add: av)
    then show ?thesis by (simp add: assignSlot_def Let_def s t 0 canonicalSlots_0)
  next
    case (Suc n)
    have "canonicalSlots ! 0 \<in> set (take k canonicalSlots)"
      using Suc assms(4) by (intro nth_in_take) (simp_all add: canonicalSlots_length)
    then have no: "\<not> ?avail ''Mon-P1''" by (simp add: av canonicalSlots_0)
    have len: "length (tl canonicalSlots) = 29" by (simp add: canonicalSlots_length)
    have nth: "tl canonicalSlots ! m = canonicalSlots ! Suc m" if "m < 29" for m
      using that by (simp add: nth_tl canonicalSlots_length)
    have "List.find ?avail (tl canonicalSlots) = Some (tl canonicalSlots ! n)"
    proof (rule find_first_index)
      show "n < length (tl canonicalSlots)" using Suc assms(4) len by simp
      show "\<forall>m<n. \<not> ?avail (tl canonicalSlots ! m)"
      proof (intro allI impI)
        fix m assume "m < n"
        then have "canonicalSlots ! Suc m \<in> set (take k canonicalSlots)"
          using Suc assms(4) by (intro nth_in_take) (simp_all add: canonicalSlots_length)
        then show "\<not> ?avail (tl canonicalSlots ! m)"
          using nth[of m] \<open>m < n\<close> Suc assms(4) by (simp add: av)
      qed
      have "canonicalSlots ! k \<notin> set (take k canonicalSlots)"
        using canonicalSlots_distinct assms(4) by (intro nth_notin_take) (simp_all add: canonicalSlots_length)
      then show "?avail (tl canonicalSlots ! n)"
        using nth[of n] Suc assms(4) by (simp add: av)
    qed
    then have f: "List.find ?avail (tl canonicalSlots) = Some (canonicalSlots ! k)"
      using nth[of n] Suc assms(4) by simp
    have d: "(0::nat) < length DAYS" "(0::nat) < length PERIODS"
      by (simp_all add: DAYS_def PERIODS_def)
    have "findNextAvailableSlot ''Mon-P1'' ''T'' ?r ?g occ = Some (canonicalSlots ! k)"
      using findNextAvailableSlot_canonical[OF d, of "''T''" ?r ?g occ] f
      unfolding slotKey_Mon_P1 searchOrder_Mon_P1 by simp
    moreover have "canonicalSlots ! k \<noteq> []"
      using assms(4) by (intro canonical_nonempty) (simp add: canonicalSlots_length)
    ultimately show ?thesis using no by (simp add: assignSlot_def Let_def s t)
  qed
qed

lemma addToSlot_heldBy:
  assumes "heldBy ''T'' (take k canonicalSlots) occ" and "k < 30"
  shows "heldBy ''T'' (take (Suc k) canonicalSlots) (addToSlot (canonicalSlots ! k) ''T'' r g occ)"
proof -
  have tk: "take (Suc k) canonicalSlots = take k canonicalSlots @ [canonicalSlots ! k]"
    using assms(2) by (simp add: take_Suc_conv_app_nth canonicalSlots_length)
  show ?thesis
    using assms(1) unfolding heldBy_def tk
    by (auto simp: addToSlot_def Let_def trim_T)
qed

lemma foldl_resolveRow_Mon_P1_T:
  assumes "\<forall>row \<in> set vs. day row = ''Mon'' \<and> period row = ''P1'' \<and> teacher row = Some ''T''"
    and "heldBy ''T'' (take (length as) canonicalSlots) occ"
    and "map assignedSlot as = take (length as) canonicalSlots"
    and "length as + length vs \<le> 30"
  shows "map assignedSlot (fst (foldl resolveRow (as, sep, occ) vs))
       = take (length as + length vs) canonicalSlots"
  using assms
proof (induction vs arbitrary: as sep occ)
  case Nil
  then show ?case by simp
next
  case (Cons row vs)
  let ?k = "length as"
  let ?st = "resolveRow (as, sep, occ) row"
  have k: "?k < 30" using Cons.prems(4) by simp
  have row: "day row = ''Mon''" "period row = ''P1''" "teacher row = Some ''T''"
    using Cons.prems(1) by simp_all
  have a: "assignSlot row occ = canonicalSlots ! ?k"
    using row k Cons.prems(2) by (rule assignSlot_Mon_P1_T)
  have t: "trim (orEmpty (teacher row)) = ''T''" by (simp add: row(3) orEmpty_def trim_T)
  obtain as' sep' occ' where st: "?st = (as', sep', occ')" by (cases ?st)
  have as': "as' = as @ [mkAssignment row (canonicalSlots ! ?k)]"
    using resolveRow_simps(1)[of as sep occ row] st a by simp
  have occ': "occ' = addToSlot (canonicalSlots ! ?k) ''T'' (trim (orEmpty (room row)))
       (trim (orEmpty (group row))) occ"
    using resolveRow_simps(2)[of as sep occ row] st a t by simp
  have len: "length as' = Suc ?k" using as' by simp
  have 1: "heldBy ''T'' (take (length as') canonicalSlots) occ'"
    unfolding len occ' using Cons.prems(2) k by (rule addToSlot_heldBy)
  have 2: "map assignedSlot as' = take (length as') canonicalSlots"
    unfolding len using as' Cons.prems(3) k
    by (simp add: take_Suc_conv_app_nth canonicalSlots_length)
  have 3: "length as' + length vs \<le> 30" using len Cons.prems(4) by simp
  have 0: "\<forall>row \<in> set vs. day row = ''Mon'' \<and> period row = ''P1'' \<and> teacher row = Some ''T''"
    using Cons.prems(1) by simp
  from Cons.IH[OF 0 1 2 3, of sep'] show ?case
    using st len by simp
qed

subsection \<open>Rows that agree on their scheduling fields\<close>

lemma sameSchedulingFields_slot:
  assumes "sameSchedulingFields r r'"
  shows "slotFromRow r = slotFromRow r'" and "validRow r = validRow r'"
    and "assignSlot r occ = assignSlot r' occ"
proof -
  show s: "slotFromRow r = slotFromRow r'"
    using assms by (simp add: sameSchedulingFields_def slotFromRow_def)
  show "validRow r = validRow r'"
    using assms s by (simp add: sameSchedulingFields_def validRow_def)
  show "assignSlot r occ = assignSlot r' occ"
    using assms s by (simp add: sameSchedulingFields_def assignSlot_def)
qed

lemma sameSchedulingFields_filter:
  "list_all2 sameSchedulingFields rows rows' \<Longrightarrow>
   list_all2 sameSchedulingFields (filter validRow rows) (filter validRow rows')"
  by (induction rule: list_all2_induct) (auto simp: sameSchedulingFields_slot(2))

lemma foldl_resolveRow_same:
  assumes "list_all2 sameSchedulingFields vs vs'"
    and "map assignedSlot as = map assignedSlot as'"
  shows "map assignedSlot (fst (foldl resolveRow (as, sep, occ) vs))
       = map assignedSlot (fst (foldl resolveRow (as', sep', occ) vs'))
     \<and> snd (snd (foldl resolveRow (as, sep, occ) vs))
       = snd (snd (foldl resolveRow (as', sep', occ) vs'))"
  using assms
proof (induction arbitrary: as as' sep sep' occ rule: list_all2_induct)
  case Nil
  then show ?case by simp
next
  case (Cons r vs r' vs')
  let ?st = "resolveRow (as, sep, occ) r" and ?st' = "resolveRow (as', sep', occ) r'"
  obtain a1 s1 o1 where st: "?st = (a1, s1, o1)" by (cases ?st)
  obtain a2 s2 o2 where st': "?st' = (a2, s2, o2)" by (cases ?st')
  have e: "assignSlot r occ = assignSlot r' occ" using Cons.hyps(1) by (rule sameSchedulingFields_slot)
  have f: "teacher r = teacher r'" "room r = room r'" "group r = group r'"
    using Cons.hyps(1) by (simp_all add: sameSchedulingFields_def)
  have "o1 = o2"
    using resolveRow_simps(2)[of as sep occ r] resolveRow_simps(2)[of as' sep' occ r'] st st' e f
    by simp
  moreover have "map assignedSlot a1 = map assignedSlot a2"
    using resolveRow_simps(1)[of as sep occ r] resolveRow_simps(1)[of as' sep' occ r'] st st' e
      Cons.prems
    by simp
  ultimately show ?case
    using Cons.IH[of a1 a2 s1 o1 s2] st st' by simp
qed

lemma slots_depend_on_scheduling_fields:
  assumes "list_all2 sameSchedulingFields rows rows'"
  shows "map assignedSlot (assignments (mergeAndResolve rows))
        = map assignedSlot (assignments (mergeAndResolve rows'))
      \<and> finalOccupiedSlots rows = finalOccupiedSlots rows'"
  unfolding assignments_mergeAndResolve finalOccupiedSlots_eq resolvePass_def
  using sameSchedulingFields_filter[OF assms] by (intro foldl_resolveRow_same) simp_all

subsection \<open>The assignment of the k-th valid row\<close>

lemma findNextAvailableSlot_Some_available:
  assumes "findNextAvailableSlot s t r g occ = Some x"
  shows "isSlotAvailable x t r g occ"
proof -
  have g: "s \<noteq> []" "indexOf DAYS (Some (hd (splitHyphen s))) \<noteq> -1"
    "indexOf PERIODS (secondSegment s) \<noteq> -1"
    using assms findNextAvailableSlot_None[of s t r g occ] by auto
  have "List.find (\<lambda>c. isSlotAvailable c t r g occ)
      (searchOrder (hd (splitHyphen s)) (nat (indexOf DAYS (Some (hd (splitHyphen s)))))
         (nat (indexOf PERIODS (secondSegment s)))) = Some x"
    using findNextAvailableSlot_find[OF g, of t r g occ] assms by simp
  then show ?thesis unfolding find_Some_iff by blast
qed

lemma assignSlot_free_kept:
  "isSlotAvailable (slotFromRow row) (trim (orEmpty (teacher row))) (trim (orEmpty (room row)))
     (trim (orEmpty (group row))) occ \<Longrightarrow> assignSlot row occ = slotFromRow row"
  by (simp add: assignSlot_def Let_def)

lemma assignSlot_null_kept:
  "findNextAvailableSlot (slotFromRow row) (trim (orEmpty (teacher row)))
     (trim (orEmpty (room row))) (trim (orEmpty (group row))) occ = None
   \<Longrightarrow> assignSlot row occ = slotFromRow row"
  by (simp add: assignSlot_def Let_def)

lemma assignSlot_relocated:
  assumes "\<not> isSlotAvailable (slotFromRow row) (trim (orEmpty (teacher row)))
     (trim (orEmpty (room row))) (trim (orEmpty (group row))) occ"
    and "findNextAvailableSlot (slotFromRow row) (trim (orEmpty (teacher row)))
     (trim (orEmpty (room row))) (trim (orEmpty (group row))) occ = Some s"
  shows "assignSlot row occ = s"
proof -
  have "s \<noteq> []"
    using findNextAvailableSlot_Some_canonical[OF assms(2)] by (rule canonical_nonempty)
  then show ?thesis using assms by (simp add: assignSlot_def Let_def)
qed

lemma foldl_resolveRow_length:
  "length (fst (foldl resolveRow st vs)) = length (fst st) + length vs"
proof (induction vs arbitrary: st)
  case Nil
  then show ?case by simp
next
  case (Cons r rs)
  obtain as sep occ where st: "st = (as, sep, occ)" by (cases st)
  show ?case by (simp add: Cons.IH st resolveRow_simps)
qed

lemma foldl_resolveRow_nth_kept:
  "i < length (fst st) \<Longrightarrow> fst (foldl resolveRow st vs) ! i = fst st ! i"
proof (induction vs arbitrary: st)
  case Nil
  then show ?case by simp
next
  case (Cons r rs)
  obtain as sep occ where st: "st = (as, sep, occ)" by (cases st)
  have "i < length (fst (resolveRow st r))" using Cons.prems by (simp add: st resolveRow_simps)
  from Cons.IH[OF this] Cons.prems show ?case
    by (simp add: st resolveRow_simps nth_append)
qed

lemma foldl_resolveRow_nth:
  assumes "k < length vs"
  shows "fst (foldl resolveRow ([], [], Map.empty) vs) ! k =
     mkAssignment (vs ! k)
       (assignSlot (vs ! k) (snd (snd (foldl resolveRow ([], [], Map.empty) (take k vs)))))"
proof -
  let ?st = "foldl resolveRow ([], [], Map.empty) (take k vs)"
  obtain as sep occ where st: "?st = (as, sep, occ)" by (cases ?st)
  have len: "length as = k"
    using foldl_resolveRow_length[of "([], [], Map.empty)" "take k vs"] assms st by simp
  have split: "vs = take k vs @ vs ! k # drop (Suc k) vs"
    using assms by (simp add: id_take_nth_drop)
  have "foldl resolveRow ([], [], Map.empty) vs =
      foldl resolveRow (resolveRow ?st (vs ! k)) (drop (Suc k) vs)"
    by (subst split) (simp only: foldl_append foldl_Cons)
  then have "fst (foldl resolveRow ([], [], Map.empty) vs) ! k =
      fst (resolveRow ?st (vs ! k)) ! k"
    using foldl_resolveRow_nth_kept[of k "resolveRow ?st (vs ! k)" "drop (Suc k) vs"] len
    by (simp add: st resolveRow_simps)
  then show ?thesis using len by (simp add: st resolveRow_simps nth_append)
qed

lemma finalOccupiedSlots_valid_prefix:
  "finalOccupiedSlots (take k (filter validRow rows)) =
     snd (snd (foldl resolveRow ([], [], Map.empty) (take k (filter validRow rows))))"
proof -
  have "filter validRow (take k (filter validRow rows)) = take k (filter validRow rows)"
    by (rule filter_True) (auto dest: in_set_takeD)
  then show ?thesis by (simp add: finalOccupiedSlots_eq resolvePass_def)
qed

subsection \<open>The gate and the outputs\<close>

text \<open>
  The assignments are the rows that pass the gate, in order; on rows whose teacher, room
  and group carry no surrounding white space the gate is: a slot, and a resource that is
  non-empty after trimming. The per-source grouping holds exactly the assignments, and
  every entry of a conflict is an assignment.
\<close>

lemma gated_rows_are_the_outputs:
  "map TimetableRow.truncate (assignments (mergeAndResolve rows)) = filter validRow rows
   \<and> (\<forall>row. validRow row \<longleftrightarrow>
         slotFromRow row \<noteq> [] \<and>
         (orEmpty (teacher row) \<noteq> [] \<or> orEmpty (room row) \<noteq> [] \<or> orEmpty (group row) \<noteq> []))
   \<and> (\<forall>row. trim (orEmpty (teacher row)) = orEmpty (teacher row)
           \<and> trim (orEmpty (room row)) = orEmpty (room row)
           \<and> trim (orEmpty (group row)) = orEmpty (group row) \<longrightarrow>
         (validRow row \<longleftrightarrow>
            slotFromRow row \<noteq> [] \<and>
            (trim (orEmpty (teacher row)) \<noteq> [] \<or> trim (orEmpty (room row)) \<noteq> []
             \<or> trim (orEmpty (group row)) \<noteq> [])))
   \<and> (\<Union>e \<in> set (separatedTimetables (mergeAndResolve rows)). set (snd e))
       = set (assignments (mergeAndResolve rows))
   \<and> (\<forall>c \<in> set (conflicts (mergeAndResolve rows)).
         set (conflictingEntries c) \<subseteq> set (assignments (mergeAndResolve rows)))"
proof -
  have 0: "\<forall>row. trim (orEmpty (teacher row)) = orEmpty (teacher row)
           \<and> trim (orEmpty (room row)) = orEmpty (room row)
           \<and> trim (orEmpty (group row)) = orEmpty (group row) \<longrightarrow>
         (validRow row \<longleftrightarrow>
            slotFromRow row \<noteq> [] \<and>
            (trim (orEmpty (teacher row)) \<noteq> [] \<or> trim (orEmpty (room row)) \<noteq> []
             \<or> trim (orEmpty (group row)) \<noteq> []))"
    by (simp add: validRow_iff)
  have 1: "(\<Union>e \<in> set (separatedTimetables (mergeAndResolve rows)). set (snd e))
       = set (assignments (mergeAndResolve rows))"
    unfolding separatedTimetables_mergeAndResolve assignments_mergeAndResolve resolvePass_def
    by (rule foldl_resolveRow_separated) simp
  have 2: "\<forall>c \<in> set (conflicts (mergeAndResolve rows)).
         set (conflictingEntries c) \<subseteq> set (assignments (mergeAndResolve rows))"
    unfolding conflicts_mergeAndResolve using detectConflicts_entries by blast
  show ?thesis
    using assignments_rows[of rows] validRow_iff 0 1 2 by blast
qed

section \<open>The claims\<close>

subsection \<open>C5: the search covers the other 29 slots, each once\<close>

text \<open>
  C5. From a canonical start slot (day index \<open>di\<close>, period index \<open>pi\<close>) and for any
  resource identities and occupancy index, \<^const>\<open>findNextAvailableSlot\<close> returns the
  first available slot of the candidate list \<^const>\<open>searchOrder\<close>; that list has no
  duplicates, holds exactly the 29 canonical slots other than the start, so the result is
  null only when all 29 are unavailable; from Mon-P1 the first candidate is Mon-P2, which
  is returned when nothing is committed anywhere.
\<close>

theorem relocation_search_covers_grid:
  assumes "di < length DAYS" and "pi < length PERIODS"
  shows "findNextAvailableSlot (slotKey (DAYS ! di) (PERIODS ! pi)) t r g occ =
           List.find (\<lambda>s. isSlotAvailable s t r g occ) (searchOrder (DAYS ! di) di pi)
       \<and> distinct (searchOrder (DAYS ! di) di pi)
       \<and> set (searchOrder (DAYS ! di) di pi) =
           set canonicalSlots - {slotKey (DAYS ! di) (PERIODS ! pi)}
       \<and> length (searchOrder (DAYS ! di) di pi) = 29
       \<and> ((findNextAvailableSlot (slotKey (DAYS ! di) (PERIODS ! pi)) t r g occ = None) =
            (\<forall>c \<in> set canonicalSlots - {slotKey (DAYS ! di) (PERIODS ! pi)}.
               \<not> isSlotAvailable c t r g occ))
       \<and> slotKey (DAYS ! 0) (PERIODS ! 0) = ''Mon-P1''
       \<and> hd (searchOrder (DAYS ! 0) 0 0) = ''Mon-P2''
       \<and> findNextAvailableSlot ''Mon-P1'' t r g Map.empty = Some ''Mon-P2''"
proof -
  have hd0: "hd (searchOrder (DAYS ! 0) 0 0) = ''Mon-P2''"
    by code_simp
  have d0: "(0::nat) < length DAYS" "(0::nat) < length PERIODS"
    by (simp_all add: DAYS_def PERIODS_def)
  have "findNextAvailableSlot ''Mon-P1'' t r g Map.empty =
      List.find (\<lambda>s. True) (tl canonicalSlots)"
    using findNextAvailableSlot_canonical[OF d0, of t r g Map.empty]
    unfolding slotKey_Mon_P1 searchOrder_Mon_P1 by (simp add: isSlotAvailable_def)
  then have first: "findNextAvailableSlot ''Mon-P1'' t r g Map.empty = Some ''Mon-P2''"
    unfolding canonicalSlots_list by simp
  have none: "(findNextAvailableSlot (slotKey (DAYS ! di) (PERIODS ! pi)) t r g occ = None) =
      (\<forall>c \<in> set canonicalSlots - {slotKey (DAYS ! di) (PERIODS ! pi)}.
         \<not> isSlotAvailable c t r g occ)"
    unfolding findNextAvailableSlot_canonical[OF assms] find_None_iff
      searchOrder_cover(2)[OF assms, symmetric]
    by blast
  show ?thesis
    using findNextAvailableSlot_canonical[OF assms] searchOrder_cover[OF assms] none hd0
      slotKey_Mon_P1 first
    by blast
qed

theorem relocation_search_covers_grid_witness:
  "(0::nat) < length DAYS \<and> (0::nat) < length PERIODS
   \<and> slotKey (DAYS ! 0) (PERIODS ! 0) = ''Mon-P1''
   \<and> findNextAvailableSlot (slotKey (DAYS ! 0) (PERIODS ! 0)) ''T'' [] [] Map.empty =
           List.find (\<lambda>s. isSlotAvailable s ''T'' [] [] Map.empty) (searchOrder (DAYS ! 0) 0 0)
   \<and> distinct (searchOrder (DAYS ! 0) 0 0)
   \<and> length (searchOrder (DAYS ! 0) 0 0) = 29
   \<and> hd (searchOrder (DAYS ! 0) 0 0) = ''Mon-P2''"
proof -
  have h1: "(0::nat) < length DAYS" by (simp add: DAYS_def)
  have h2: "(0::nat) < length PERIODS" by (simp add: PERIODS_def)
  have k: "slotKey (DAYS ! 0) (PERIODS ! 0) = ''Mon-P1''" by code_simp
  show ?thesis
    using relocation_search_covers_grid[OF h1 h2, of "''T''" "[]" "[]" Map.empty] h1 h2 k
    by blast
qed

subsection \<open>C6: the order of the days before the original day\<close>

lemma findNextAvailableSlot_phase4:
  assumes "di < length DAYS" and "pi < length PERIODS"
    and "\<forall>c \<in> set (sameDayLater (DAYS ! di) pi @ laterDays di @ sameDayEarlier (DAYS ! di) pi).
           \<not> isSlotAvailable c t r g occ"
  shows "findNextAvailableSlot (slotKey (DAYS ! di) (PERIODS ! pi)) t r g occ =
     List.find (\<lambda>s. isSlotAvailable s t r g occ) (previousDays di)"
proof -
  have "List.find (\<lambda>s. isSlotAvailable s t r g occ)
      (sameDayLater (DAYS ! di) pi @ laterDays di @ sameDayEarlier (DAYS ! di) pi) = None"
    using assms(3) unfolding find_None_iff by blast
  then show ?thesis
    unfolding findNextAvailableSlot_canonical[OF assms(1,2)] searchOrder_def
    using find_append_case[of "\<lambda>s. isSlotAvailable s t r g occ"
        "sameDayLater (DAYS ! di) pi @ laterDays di @ sameDayEarlier (DAYS ! di) pi" "previousDays di"]
    by simp
qed

text \<open>
  C6 as the spec states it fails: the days before the original day are not tried Monday
  first. With teacher T busy on every slot of Wednesday, Thursday and Friday, the first
  three phases of the search from Wed-P1 find nothing, Mon-P1 is available, and the search
  returns Tue-P1.
\<close>

theorem previous_days_order_counterexample:
  "findNextAvailableSlot ''Wed-P1'' ''T'' [] [] (teacherBusy ''T'' (drop 12 canonicalSlots))
     = Some ''Tue-P1''
   \<and> isSlotAvailable ''Mon-P1'' ''T'' [] [] (teacherBusy ''T'' (drop 12 canonicalSlots))
   \<and> list_all (\<lambda>c. \<not> isSlotAvailable c ''T'' [] [] (teacherBusy ''T'' (drop 12 canonicalSlots)))
       (sameDayLater ''Wed'' 0 @ laterDays 2 @ sameDayEarlier ''Wed'' 0)"
proof -
  let ?occ = "teacherBusy ''T'' (drop 12 canonicalSlots)"
  have t: "''T'' \<noteq> []" "trim ''T'' = ''T''" by code_simp+
  have k: "slotKey (DAYS ! 2) (PERIODS ! 0) = ''Wed-P1''" by code_simp
  have d: "(2::nat) < length DAYS" "(0::nat) < length PERIODS"
    by (simp_all add: DAYS_def PERIODS_def)
  have 1: "List.find (\<lambda>s. s \<notin> set (drop 12 canonicalSlots)) (searchOrder (DAYS ! 2) 2 0)
      = Some ''Tue-P1''"
    by code_simp
  have 2: "''Mon-P1'' \<notin> set (drop 12 canonicalSlots)" by code_simp
  have 3: "list_all (\<lambda>c. \<not> c \<notin> set (drop 12 canonicalSlots))
       (sameDayLater ''Wed'' 0 @ laterDays 2 @ sameDayEarlier ''Wed'' 0)" by code_simp
  have "findNextAvailableSlot ''Wed-P1'' ''T'' [] [] ?occ =
      List.find (\<lambda>s. isSlotAvailable s ''T'' [] [] ?occ) (searchOrder (DAYS ! 2) 2 0)"
    using findNextAvailableSlot_canonical[OF d, of "''T''" "[]" "[]" ?occ] unfolding k .
  then have "findNextAvailableSlot ''Wed-P1'' ''T'' [] [] ?occ = Some ''Tue-P1''"
    unfolding teacherBusy_available[OF t] using 1 by simp
  then show ?thesis
    unfolding teacherBusy_available[OF t] using 2 3 by simp
qed


text \<open>
  C6, amended. When the first three phases yield no available slot, the days strictly
  before the original day are tried nearest first (the day just before the original, then
  back to Monday), each day's periods in increasing order.
\<close>

theorem previous_days_nearest_first:
  assumes "di < length DAYS" and "pi < length PERIODS"
    and "\<forall>c \<in> set (sameDayLater (DAYS ! di) pi @ laterDays di @ sameDayEarlier (DAYS ! di) pi).
           \<not> isSlotAvailable c t r g occ"
  shows "findNextAvailableSlot (slotKey (DAYS ! di) (PERIODS ! pi)) t r g occ =
     List.find (\<lambda>s. isSlotAvailable s t r g occ)
       (concat (map (\<lambda>d. map (\<lambda>q. slotKey (DAYS ! d) (PERIODS ! q)) [0 ..< length PERIODS])
                  (rev [0 ..< di])))"
  using findNextAvailableSlot_phase4[OF assms]
  by (simp add: previousDays_def dayPeriods_def)


theorem previous_days_nearest_first_witness:
  "(2::nat) < length DAYS \<and> (0::nat) < length PERIODS
   \<and> list_all (\<lambda>c. \<not> isSlotAvailable c ''T'' [] [] (teacherBusy ''T'' (drop 12 canonicalSlots)))
       (sameDayLater (DAYS ! 2) 0 @ laterDays 2 @ sameDayEarlier (DAYS ! 2) 0)
   \<and> findNextAvailableSlot (slotKey (DAYS ! 2) (PERIODS ! 0)) ''T'' [] []
        (teacherBusy ''T'' (drop 12 canonicalSlots)) =
      List.find (\<lambda>s. isSlotAvailable s ''T'' [] [] (teacherBusy ''T'' (drop 12 canonicalSlots)))
       (concat (map (\<lambda>d. map (\<lambda>q. slotKey (DAYS ! d) (PERIODS ! q)) [0 ..< length PERIODS])
                  (rev [0 ..< 2])))"
proof -
  let ?occ = "teacherBusy ''T'' (drop 12 canonicalSlots)"
  have t: "''T'' \<noteq> []" "trim ''T'' = ''T''" by code_simp+
  have h1: "(2::nat) < length DAYS" by (simp add: DAYS_def)
  have h2: "(0::nat) < length PERIODS" by (simp add: PERIODS_def)
  have "list_all (\<lambda>c. \<not> c \<notin> set (drop 12 canonicalSlots))
       (sameDayLater (DAYS ! 2) 0 @ laterDays 2 @ sameDayEarlier (DAYS ! 2) 0)"
    by code_simp
  then have h3: "list_all (\<lambda>c. \<not> isSlotAvailable c ''T'' [] [] ?occ)
       (sameDayLater (DAYS ! 2) 0 @ laterDays 2 @ sameDayEarlier (DAYS ! 2) 0)"
    unfolding teacherBusy_available[OF t] .
  then have h3': "\<forall>c \<in> set (sameDayLater (DAYS ! 2) 0 @ laterDays 2 @ sameDayEarlier (DAYS ! 2) 0).
       \<not> isSlotAvailable c ''T'' [] [] ?occ"
    unfolding list_all_iff .
  show ?thesis
    using previous_days_nearest_first[OF h1 h2 h3'] h1 h2 h3 by blast
qed

subsection \<open>C10: slots the search refuses\<close>

text \<open>
  C10 as stated fails. Read with the period component as all that follows the first
  hyphen, the key Mon-P1-x has a period component outside the canonical list, yet
  \<^verbatim>\<open>split('-')\<close> hands the search the segments Mon and P1: the search runs and
  returns Mon-P2, and a second row with day "Mon-P1" and period "x" is relocated
  from its non-canonical slot.
\<close>

theorem noncanonical_slot_counterexample:
  "afterFirstHyphen ''Mon-P1-x'' \<notin> set PERIODS
   \<and> ''Mon-P1-x'' \<notin> set canonicalSlots
   \<and> findNextAvailableSlot ''Mon-P1-x'' ''T'' [] [] Map.empty = Some ''Mon-P2''
   \<and> slotFromRow (rowOf ''Mon-P1'' ''x'' ''T'') = ''Mon-P1-x''
   \<and> map assignedSlot (assignments (mergeAndResolve
        [rowOf ''Mon-P1'' ''x'' ''T'', rowOf ''Mon-P1'' ''x'' ''T''])) = [''Mon-P1-x'', ''Mon-P2'']"
  by code_simp

text \<open>
  C10, amended. For every slot string that is empty, or whose first hyphen-separated
  segment is not a canonical day, or whose second segment is missing or not a canonical
  period, \<^const>\<open>findNextAvailableSlot\<close> returns null whatever the occupancy index holds;
  a row whose original slot is such a string keeps its original slot, in a single step
  and in every run of \<^const>\<open>mergeAndResolve\<close>.
\<close>

theorem noncanonical_slot_not_relocated:
  assumes "s = [] \<or> hd (splitHyphen s) \<notin> set DAYS \<or> secondSegment s \<notin> Some ` set PERIODS"
  shows "findNextAvailableSlot s t r g occ = None
     \<and> (\<forall>row. slotFromRow row = s \<longrightarrow> assignSlot row occ = s)
     \<and> (\<forall>rows. \<forall>a \<in> set (assignments (mergeAndResolve rows)).
           slotFromRow a = s \<longrightarrow> assignedSlot a = s)"
proof -
  have none: "\<And>t r g occ. findNextAvailableSlot s t r g occ = None"
    using findNextAvailableSlot_None_iff_guard[OF assms] .
  have one: "\<And>row occ. slotFromRow row = s \<Longrightarrow> assignSlot row occ = s"
    using assignSlot_cases none by (metis option.distinct(1))
  have "\<forall>a \<in> set (fst (foldl resolveRow ([], [], Map.empty) vs)).
          slotFromRow a = s \<longrightarrow> assignedSlot a = s" for vs
    by (rule foldl_resolveRow_all) (simp_all add: one slotFromRow_mkAssignment)
  then show ?thesis
    using none one by (simp add: assignments_mergeAndResolve resolvePass_def)
qed


theorem noncanonical_slot_not_relocated_witness:
  "hd (splitHyphen ''Foo-P1'') \<notin> set DAYS
   \<and> slotFromRow (rowOf ''Foo'' ''P1'' ''T'') = ''Foo-P1''
   \<and> findNextAvailableSlot ''Foo-P1'' ''T'' [] [] Map.empty = None
   \<and> assignSlot (rowOf ''Foo'' ''P1'' ''T'') Map.empty = ''Foo-P1''"
proof -
  have h: "hd (splitHyphen ''Foo-P1'') \<notin> set DAYS" by code_simp
  have s: "slotFromRow (rowOf ''Foo'' ''P1'' ''T'') = ''Foo-P1''" by code_simp
  show ?thesis
    using noncanonical_slot_not_relocated[of "''Foo-P1''" "''T''" "[]" "[]" Map.empty,
        OF disjI2[OF disjI1[OF h]]] h s
    by blast
qed

subsection \<open>C2: when slotFromRow returns the empty string\<close>

text \<open>
  C2 as stated fails: \<^const>\<open>slotFromRow\<close> tests only that the two normalised values
  are non-empty. The day "Foo" normalises to itself, which is no canonical day, and the
  row gets the slot Foo-P1, not the empty string.
\<close>

theorem slotFromRow_noncanonical_counterexample:
  "toString (normalizeDay (trim (day (rowOf ''Foo'' ''P1'' ''T'')))) \<notin> set DAYS
   \<and> slotFromRow (rowOf ''Foo'' ''P1'' ''T'') = ''Foo-P1''"
  by code_simp

text \<open>
  C2, amended. \<^const>\<open>slotFromRow\<close> returns the empty string exactly when the trimmed day
  is empty or the period, after the replacement of a leading "period" and trimming, is
  empty; otherwise it returns the normalised day, a hyphen and the normalised period,
  canonical or not; when both are canonical the result is the key of a slot of the grid.
\<close>

theorem slotFromRow_empty_iff:
  "(slotFromRow r = [] \<longleftrightarrow>
      trim (day r) = [] \<or> trim (replacePeriodPrefix (period r)) = [])
   \<and> (slotFromRow r \<noteq> [] \<longrightarrow>
        slotFromRow r =
          toString (normalizeDay (trim (day r))) @ ''-'' @
          normalizePeriod (trim (replacePeriodPrefix (period r))))
   \<and> (toString (normalizeDay (trim (day r))) \<in> set DAYS
        \<and> normalizePeriod (trim (replacePeriodPrefix (period r))) \<in> set PERIODS \<longrightarrow>
        slotFromRow r =
          toString (normalizeDay (trim (day r))) @ ''-'' @
          normalizePeriod (trim (replacePeriodPrefix (period r)))
        \<and> slotFromRow r \<in> set canonicalSlots)"
proof -
  let ?d = "trim (day r)" and ?p = "trim (replacePeriodPrefix (period r))"
  have 1: "slotFromRow r = [] \<longleftrightarrow> ?d = [] \<or> ?p = []"
    by (simp add: slotFromRow_eq slotKey_nonempty)
  have 2: "slotFromRow r \<noteq> [] \<longrightarrow>
      slotFromRow r = toString (normalizeDay ?d) @ ''-'' @ normalizePeriod ?p"
    by (simp add: slotFromRow_eq slotKey_def)
  have 3: "slotFromRow r = toString (normalizeDay ?d) @ ''-'' @ normalizePeriod ?p
      \<and> slotFromRow r \<in> set canonicalSlots"
    if "toString (normalizeDay ?d) \<in> set DAYS" "normalizePeriod ?p \<in> set PERIODS"
  proof -
    have "?d \<noteq> []" using that(1) by (rule normalizeDay_canonical_nonempty)
    moreover have "?p \<noteq> []" using PERIODS_nonempty[OF that(2)] normalizePeriod_empty by blast
    ultimately have "slotFromRow r = slotKey (toString (normalizeDay ?d)) (normalizePeriod ?p)"
      by (simp add: slotFromRow_eq)
    then show ?thesis using slotKey_canonical[OF that] by (simp add: slotKey_def)
  qed
  show ?thesis using 1 2 3 by blast
qed

theorem slotFromRow_empty_iff_witness:
  "toString (normalizeDay (trim (day (rowOf ''Monday'' ''Period 3'' ''T'')))) \<in> set DAYS
   \<and> normalizePeriod (trim (replacePeriodPrefix (period (rowOf ''Monday'' ''Period 3'' ''T''))))
       \<in> set PERIODS
   \<and> slotFromRow (rowOf ''Monday'' ''Period 3'' ''T'') = ''Mon-P3''
   \<and> slotFromRow (rowOf ''Monday'' ''Period 3'' ''T'') \<in> set canonicalSlots"
proof -
  have h1: "toString (normalizeDay (trim (day (rowOf ''Monday'' ''Period 3'' ''T'')))) \<in> set DAYS"
    by code_simp
  have h2: "normalizePeriod (trim (replacePeriodPrefix (period (rowOf ''Monday'' ''Period 3'' ''T''))))
       \<in> set PERIODS"
    by code_simp
  have v: "slotFromRow (rowOf ''Monday'' ''Period 3'' ''T'') = ''Mon-P3''"
    by code_simp
  show ?thesis
    using slotFromRow_empty_iff[of "rowOf ''Monday'' ''Period 3'' ''T''"] h1 h2 v
    by blast
qed

subsection \<open>C3: the slots of the assignments\<close>

text \<open>
  C3 as stated fails: the single valid row with day "Foo" is assigned Foo-P1, which is
  not a key of the grid, although no relocation search ran (its slot was available).
\<close>

theorem assignedSlot_canonical_counterexample:
  "map assignedSlot (assignments (mergeAndResolve [rowOf ''Foo'' ''P1'' ''T''])) = [''Foo-P1'']
   \<and> ''Foo-P1'' \<notin> set canonicalSlots
   \<and> isSlotAvailable (slotFromRow (rowOf ''Foo'' ''P1'' ''T'')) ''T'' [] [] Map.empty"
  by code_simp

text \<open>
  C3, amended. The assignments are the valid rows in order, and the \<open>k\<close>-th one has a
  non-empty assigned slot fixed as follows by the occupancy index the valid rows before it
  have left: when the row's own slot (what \<^const>\<open>slotFromRow\<close> computes from its day
  and period, canonical or not) is available there, the assigned slot is that slot; when
  it is not available and the relocation search returns null, the assigned slot is again
  that slot; when it is not available and the search returns a slot, the assigned slot is
  the returned one, which is a key of the canonical grid and is available. When the row's
  own slot is canonical, so is the assigned slot.
\<close>

theorem assignedSlot_original_or_canonical:
  assumes "k < length (filter validRow rows)"
  defines "row \<equiv> filter validRow rows ! k"
    and "a \<equiv> assignments (mergeAndResolve rows) ! k"
    and "occ \<equiv> finalOccupiedSlots (take k (filter validRow rows))"
  defines "t \<equiv> trim (orEmpty (teacher row))"
    and "r \<equiv> trim (orEmpty (room row))"
    and "g \<equiv> trim (orEmpty (group row))"
  shows "length (assignments (mergeAndResolve rows)) = length (filter validRow rows)
     \<and> TimetableRow.truncate a = row
     \<and> assignedSlot a \<noteq> []
     \<and> (isSlotAvailable (slotFromRow row) t r g occ \<longrightarrow> assignedSlot a = slotFromRow row)
     \<and> (\<not> isSlotAvailable (slotFromRow row) t r g occ \<longrightarrow>
          (case findNextAvailableSlot (slotFromRow row) t r g occ of
             None \<Rightarrow> assignedSlot a = slotFromRow row
           | Some s \<Rightarrow> assignedSlot a = s \<and> s \<in> set canonicalSlots
                        \<and> isSlotAvailable s t r g occ))
     \<and> (slotFromRow row \<in> set canonicalSlots \<longrightarrow> assignedSlot a \<in> set canonicalSlots)"
proof -
  let ?vs = "filter validRow rows"
  have len: "length (assignments (mergeAndResolve rows)) = length ?vs"
    using assignments_rows[of rows] by (metis length_map)
  have a: "a = mkAssignment row (assignSlot row occ)"
    unfolding a_def row_def occ_def assignments_mergeAndResolve resolvePass_def
      finalOccupiedSlots_valid_prefix
    using assms(1) by (rule foldl_resolveRow_nth)
  have "row \<in> set ?vs" unfolding row_def using assms(1) by (rule nth_mem)
  then have "validRow row" by simp
  then have ne: "slotFromRow row \<noteq> []" by (simp add: validRow_iff)
  have 1: "TimetableRow.truncate a = row" by (simp add: a)
  have 2: "assignedSlot a \<noteq> []" using assignSlot_nonempty[OF ne] by (simp add: a)
  have 3: "isSlotAvailable (slotFromRow row) t r g occ \<longrightarrow> assignedSlot a = slotFromRow row"
    unfolding t_def r_def g_def using assignSlot_free_kept[of row occ] by (simp add: a)
  have 4: "\<not> isSlotAvailable (slotFromRow row) t r g occ \<longrightarrow>
          (case findNextAvailableSlot (slotFromRow row) t r g occ of
             None \<Rightarrow> assignedSlot a = slotFromRow row
           | Some s \<Rightarrow> assignedSlot a = s \<and> s \<in> set canonicalSlots
                        \<and> isSlotAvailable s t r g occ)"
  proof (intro impI)
    assume no: "\<not> isSlotAvailable (slotFromRow row) t r g occ"
    show "case findNextAvailableSlot (slotFromRow row) t r g occ of
             None \<Rightarrow> assignedSlot a = slotFromRow row
           | Some s \<Rightarrow> assignedSlot a = s \<and> s \<in> set canonicalSlots
                        \<and> isSlotAvailable s t r g occ"
    proof (cases "findNextAvailableSlot (slotFromRow row) t r g occ")
      case None
      then show ?thesis
        using assignSlot_null_kept[of row occ] unfolding t_def r_def g_def by (simp add: a)
    next
      case (Some s)
      then have "assignSlot row occ = s"
        using assignSlot_relocated[of row occ s] no unfolding t_def r_def g_def by simp
      then show ?thesis
        using Some findNextAvailableSlot_Some_canonical[OF Some]
          findNextAvailableSlot_Some_available[OF Some]
        by (simp add: a)
    qed
  qed
  have 5: "slotFromRow row \<in> set canonicalSlots \<longrightarrow> assignedSlot a \<in> set canonicalSlots"
    using assignSlot_shape[of row occ] by (auto simp: a)
  show ?thesis using len 1 2 3 4 5 by blast
qed

theorem assignedSlot_original_or_canonical_witness:
  "(1::nat) < length (filter validRow [rowOf ''Mon'' ''P1'' ''T'', rowOf ''Mon'' ''P1'' ''T''])
   \<and> filter validRow [rowOf ''Mon'' ''P1'' ''T'', rowOf ''Mon'' ''P1'' ''T''] ! 1
       = rowOf ''Mon'' ''P1'' ''T''
   \<and> slotFromRow (rowOf ''Mon'' ''P1'' ''T'') = ''Mon-P1''
   \<and> \<not> isSlotAvailable ''Mon-P1'' ''T'' [] []
         (finalOccupiedSlots (take 1 (filter validRow
            [rowOf ''Mon'' ''P1'' ''T'', rowOf ''Mon'' ''P1'' ''T''])))
   \<and> findNextAvailableSlot ''Mon-P1'' ''T'' [] []
         (finalOccupiedSlots (take 1 (filter validRow
            [rowOf ''Mon'' ''P1'' ''T'', rowOf ''Mon'' ''P1'' ''T'']))) = Some ''Mon-P2''
   \<and> assignedSlot (assignments (mergeAndResolve
         [rowOf ''Mon'' ''P1'' ''T'', rowOf ''Mon'' ''P1'' ''T'']) ! 1) = ''Mon-P2''
   \<and> ''Mon-P2'' \<in> set canonicalSlots"
proof -
  let ?rows = "[rowOf ''Mon'' ''P1'' ''T'', rowOf ''Mon'' ''P1'' ''T'']"
  let ?occ = "finalOccupiedSlots (take 1 (filter validRow ?rows))"
  have h: "(1::nat) < length (filter validRow ?rows)" by code_simp
  have row: "filter validRow ?rows ! 1 = rowOf ''Mon'' ''P1'' ''T''" by code_simp
  have s: "slotFromRow (rowOf ''Mon'' ''P1'' ''T'') = ''Mon-P1''" by code_simp
  have f: "trim (orEmpty (teacher (rowOf ''Mon'' ''P1'' ''T''))) = ''T''"
    "trim (orEmpty (room (rowOf ''Mon'' ''P1'' ''T''))) = []"
    "trim (orEmpty (group (rowOf ''Mon'' ''P1'' ''T''))) = []"
    by code_simp+
  have no: "\<not> isSlotAvailable ''Mon-P1'' ''T'' [] [] ?occ" by code_simp
  have fd: "findNextAvailableSlot ''Mon-P1'' ''T'' [] [] ?occ = Some ''Mon-P2''" by code_simp
  note T = assignedSlot_original_or_canonical[OF h, unfolded row s f]
  from T no fd have "assignedSlot (assignments (mergeAndResolve ?rows) ! 1) = ''Mon-P2''
      \<and> ''Mon-P2'' \<in> set canonicalSlots"
    by simp
  then show ?thesis using h row s no fd by blast
qed

subsection \<open>C1: a shared teacher gives different slots or a reported conflict\<close>

text \<open>
  C1. The assignments are the valid rows in order. For any two valid rows (positions
  \<open>i < j\<close> among the valid rows) whose teachers are equal and non-empty after trimming,
  either the conflicts hold a teacher conflict at their common assigned slot whose
  entries include both assignments (the entries are all assignments of that slot with
  that teacher), or the two assigned slots differ.
\<close>

theorem shared_teacher_differ_or_conflict:
  assumes "i < j" and "j < length (filter validRow rows)"
    and "trim (orEmpty (teacher (filter validRow rows ! i))) = t"
    and "trim (orEmpty (teacher (filter validRow rows ! j))) = t"
    and "t \<noteq> []"
  shows "map TimetableRow.truncate (assignments (mergeAndResolve rows)) = filter validRow rows
     \<and> ((\<exists>c. c \<in> set (conflicts (mergeAndResolve rows))
            \<and> ctype c = TeacherConflict
            \<and> slot c = assignedSlot (assignments (mergeAndResolve rows) ! i)
            \<and> resource c = t
            \<and> assignments (mergeAndResolve rows) ! i \<in> set (conflictingEntries c)
            \<and> assignments (mergeAndResolve rows) ! j \<in> set (conflictingEntries c)
            \<and> conflictingEntries c =
                filter (\<lambda>a. assignedSlot a = assignedSlot (assignments (mergeAndResolve rows) ! i)
                          \<and> trim (orEmpty (teacher a)) = t)
                  (assignments (mergeAndResolve rows)))
         \<or> assignedSlot (assignments (mergeAndResolve rows) ! i)
            \<noteq> assignedSlot (assignments (mergeAndResolve rows) ! j))"
proof -
  let ?as = "assignments (mergeAndResolve rows)"
  let ?vs = "filter validRow rows"
  have rows: "map TimetableRow.truncate ?as = ?vs" by (rule assignments_rows)
  then have len: "length ?as = length ?vs" by (metis length_map)
  have ij: "i < length ?as" "j < length ?as" using assms(1,2) len by simp_all
  have ti: "trim (orEmpty (teacher (?as ! i))) = t"
    using assms(3) nth_map[OF ij(1), of TimetableRow.truncate] rows
    by (simp add: teacher_truncate)
  have tj: "trim (orEmpty (teacher (?as ! j))) = t"
    using assms(4) nth_map[OF ij(2), of TimetableRow.truncate] rows
    by (simp add: teacher_truncate)
  show ?thesis
  proof (cases "assignedSlot (?as ! i) = assignedSlot (?as ! j)")
    case False
    then show ?thesis using rows by blast
  next
    case True
    let ?s = "assignedSlot (?as ! i)"
    let ?es = "filter (\<lambda>a. assignedSlot a = ?s \<and> trim (orEmpty (teacher a)) = t) ?as"
    let ?c = "\<lparr>ctype = TeacherConflict, slot = ?s, conflictingEntries = ?es, resource = t\<rparr>"
    have "?as ! i \<in> set ?as" using ij(1) by simp
    then have ne: "?s \<noteq> []" using assignments_slot_shape[of rows] by blast
    have "?c \<in> set (detectConflicts ?as)"
      using detectConflicts_teacher[OF assms(1) ij(2) refl True[symmetric] ne ti tj assms(5)] .
    then have c: "?c \<in> set (conflicts (mergeAndResolve rows))"
      by (simp add: conflicts_mergeAndResolve)
    have "?as ! i \<in> set ?es" "?as ! j \<in> set ?es"
      using ij ti tj True by simp_all
    then have "?c \<in> set (conflicts (mergeAndResolve rows))
            \<and> ctype ?c = TeacherConflict \<and> slot ?c = ?s \<and> resource ?c = t
            \<and> ?as ! i \<in> set (conflictingEntries ?c) \<and> ?as ! j \<in> set (conflictingEntries ?c)
            \<and> conflictingEntries ?c = ?es"
      using c by simp
    then show ?thesis using rows by blast
  qed
qed

theorem shared_teacher_differ_or_conflict_witness:
  "(0::nat) < 1
   \<and> 1 < length (filter validRow [rowOf ''Foo'' ''P1'' ''T'', rowOf ''Foo'' ''P1'' '' T ''])
   \<and> trim (orEmpty (teacher (filter validRow
         [rowOf ''Foo'' ''P1'' ''T'', rowOf ''Foo'' ''P1'' '' T ''] ! 0))) = ''T''
   \<and> trim (orEmpty (teacher (filter validRow
         [rowOf ''Foo'' ''P1'' ''T'', rowOf ''Foo'' ''P1'' '' T ''] ! 1))) = ''T''
   \<and> map assignedSlot (assignments (mergeAndResolve
         [rowOf ''Foo'' ''P1'' ''T'', rowOf ''Foo'' ''P1'' '' T ''])) = [''Foo-P1'', ''Foo-P1'']
   \<and> (\<exists>c. c \<in> set (conflicts (mergeAndResolve
                [rowOf ''Foo'' ''P1'' ''T'', rowOf ''Foo'' ''P1'' '' T '']))
          \<and> ctype c = TeacherConflict \<and> slot c = ''Foo-P1'' \<and> resource c = ''T''
          \<and> assignments (mergeAndResolve
                [rowOf ''Foo'' ''P1'' ''T'', rowOf ''Foo'' ''P1'' '' T '']) ! 0
              \<in> set (conflictingEntries c)
          \<and> assignments (mergeAndResolve
                [rowOf ''Foo'' ''P1'' ''T'', rowOf ''Foo'' ''P1'' '' T '']) ! 1
              \<in> set (conflictingEntries c))"
proof -
  let ?rows = "[rowOf ''Foo'' ''P1'' ''T'', rowOf ''Foo'' ''P1'' '' T '']"
  have h1: "(0::nat) < 1" by simp
  have h2: "1 < length (filter validRow ?rows)" by code_simp
  have h3: "trim (orEmpty (teacher (filter validRow ?rows ! 0))) = ''T''" by code_simp
  have h4: "trim (orEmpty (teacher (filter validRow ?rows ! 1))) = ''T''" by code_simp
  have h5: "''T'' \<noteq> []" by simp
  have v: "map assignedSlot (assignments (mergeAndResolve ?rows)) = [''Foo-P1'', ''Foo-P1'']"
    by code_simp
  have s: "assignedSlot (assignments (mergeAndResolve ?rows) ! 0) = ''Foo-P1''"
    "assignedSlot (assignments (mergeAndResolve ?rows) ! 1) = ''Foo-P1''"
    by code_simp+
  note T = shared_teacher_differ_or_conflict[OF h1 h2 h3 h4 h5, unfolded s]
  then have ex: "\<exists>c. c \<in> set (conflicts (mergeAndResolve ?rows))
          \<and> ctype c = TeacherConflict \<and> slot c = ''Foo-P1'' \<and> resource c = ''T''
          \<and> assignments (mergeAndResolve ?rows) ! 0 \<in> set (conflictingEntries c)
          \<and> assignments (mergeAndResolve ?rows) ! 1 \<in> set (conflictingEntries c)"
    by blast
  show ?thesis
    using h1 h2 h3 h4 v ex by blast
qed

subsection \<open>C8: every valid row is committed, and commitments stay\<close>

text \<open>
  C8. After the first pass, every assignment's trimmed non-empty teacher, room and group
  are in the occupancy index at its assigned slot (whatever way the slot was chosen, the
  kept conflicting slot included); committing twice is committing once; a commit only
  adds to the index; and the index after a prefix of the rows is contained in the index
  after the whole run.
\<close>

theorem resources_committed_and_kept:
  "(\<forall>a \<in> set (assignments (mergeAndResolve rows)). committed a (finalOccupiedSlots rows))
   \<and> addToSlot s t r g (addToSlot s t r g occ) = addToSlot s t r g occ
   \<and> occLe occ (addToSlot s t r g occ)
   \<and> occLe (finalOccupiedSlots rows) (finalOccupiedSlots (rows @ later))"
proof -
  have 1: "\<forall>a \<in> set (assignments (mergeAndResolve rows)). committed a (finalOccupiedSlots rows)"
    unfolding assignments_mergeAndResolve finalOccupiedSlots_eq resolvePass_def
    by (rule foldl_resolveRow_committed) simp
  have "resolvePass (rows @ later) = foldl resolveRow (resolvePass rows) (filter validRow later)"
    by (simp add: resolvePass_def)
  then have 2: "occLe (finalOccupiedSlots rows) (finalOccupiedSlots (rows @ later))"
    unfolding finalOccupiedSlots_eq using foldl_resolveRow_occLe by simp
  show ?thesis using 1 2 addToSlot_idem addToSlot_mono by blast
qed

theorem resources_committed_and_kept_witness:
  "map assignedSlot (assignments (mergeAndResolve
       [rowOf ''Foo'' ''P1'' ''T'', rowOf ''Foo'' ''P1'' ''T''])) = [''Foo-P1'', ''Foo-P1'']
   \<and> list_all (\<lambda>a. committed a (finalOccupiedSlots
          [rowOf ''Foo'' ''P1'' ''T'', rowOf ''Foo'' ''P1'' ''T'']))
        (assignments (mergeAndResolve [rowOf ''Foo'' ''P1'' ''T'', rowOf ''Foo'' ''P1'' ''T'']))"
proof -
  have v: "map assignedSlot (assignments (mergeAndResolve
       [rowOf ''Foo'' ''P1'' ''T'', rowOf ''Foo'' ''P1'' ''T''])) = [''Foo-P1'', ''Foo-P1'']"
    by code_simp
  show ?thesis
    using resources_committed_and_kept[of "[rowOf ''Foo'' ''P1'' ''T'', rowOf ''Foo'' ''P1'' ''T'']"] v
    unfolding list_all_iff by blast
qed

subsection \<open>C4: the validity gate\<close>


subsection \<open>C7: thirty rows asking for Mon-P1 with the same teacher\<close>

text \<open>
  C7. For any 30 rows with day Mon, period P1 and teacher T (whatever their other
  fields), processed in order, the assigned slots are exactly the 30 canonical slots in
  the order Mon-P1, Mon-P2, ..., Fri-P6, which is Mon-P1 followed by the search order from
  Mon-P1; each slot appears once, and no conflict is reported.
\<close>

theorem thirty_rows_fill_the_grid:
  assumes "length rows = 30"
    and "\<forall>row \<in> set rows. day row = ''Mon'' \<and> period row = ''P1'' \<and> teacher row = Some ''T''"
  shows "map assignedSlot (assignments (mergeAndResolve rows)) = canonicalSlots
     \<and> canonicalSlots =
         [''Mon-P1'', ''Mon-P2'', ''Mon-P3'', ''Mon-P4'', ''Mon-P5'', ''Mon-P6'',
          ''Tue-P1'', ''Tue-P2'', ''Tue-P3'', ''Tue-P4'', ''Tue-P5'', ''Tue-P6'',
          ''Wed-P1'', ''Wed-P2'', ''Wed-P3'', ''Wed-P4'', ''Wed-P5'', ''Wed-P6'',
          ''Thu-P1'', ''Thu-P2'', ''Thu-P3'', ''Thu-P4'', ''Thu-P5'', ''Thu-P6'',
          ''Fri-P1'', ''Fri-P2'', ''Fri-P3'', ''Fri-P4'', ''Fri-P5'', ''Fri-P6'']
     \<and> canonicalSlots = ''Mon-P1'' # searchOrder ''Mon'' 0 0
     \<and> distinct canonicalSlots
     \<and> conflicts (mergeAndResolve rows) = []"
proof -
  have valid: "validRow row" if "row \<in> set rows" for row
  proof -
    have "slotFromRow row = ''Mon-P1''" using assms(2) that by (intro slotFromRow_Mon_P1) auto
    moreover have "orEmpty (teacher row) = ''T''" using assms(2) that by (simp add: orEmpty_def)
    ultimately show ?thesis by (simp add: validRow_iff)
  qed
  then have f: "filter validRow rows = rows" by (simp add: filter_id_conv)
  have h: "heldBy ''T'' (take (length ([] :: Assignment list)) canonicalSlots) Map.empty"
    by (simp add: heldBy_def)
  have "map assignedSlot (fst (foldl resolveRow ([], [], Map.empty) rows))
      = take (length ([] :: Assignment list) + length rows) canonicalSlots"
    using assms(2) h by (rule foldl_resolveRow_Mon_P1_T) (simp_all add: assms(1))
  then have 1: "map assignedSlot (assignments (mergeAndResolve rows)) = canonicalSlots"
    by (simp add: assignments_mergeAndResolve resolvePass_def f assms(1) canonicalSlots_length)
  then have "distinct (map assignedSlot (assignments (mergeAndResolve rows)))"
    by (simp add: canonicalSlots_distinct)
  then have 2: "conflicts (mergeAndResolve rows) = []"
    unfolding conflicts_mergeAndResolve by (rule detectConflicts_distinct_slots)
  have 3: "canonicalSlots = ''Mon-P1'' # searchOrder ''Mon'' 0 0"
    by code_simp
  show ?thesis
    using 1 2 3 canonicalSlots_list canonicalSlots_distinct by blast
qed

theorem thirty_rows_fill_the_grid_witness:
  "length (replicate 30 (rowOf ''Mon'' ''P1'' ''T'')) = 30
   \<and> list_all (\<lambda>row. day row = ''Mon'' \<and> period row = ''P1'' \<and> teacher row = Some ''T'')
       (replicate 30 (rowOf ''Mon'' ''P1'' ''T''))
   \<and> map assignedSlot (assignments (mergeAndResolve (replicate 30 (rowOf ''Mon'' ''P1'' ''T''))))
       = canonicalSlots
   \<and> conflicts (mergeAndResolve (replicate 30 (rowOf ''Mon'' ''P1'' ''T''))) = []"
proof -
  have h1: "length (replicate 30 (rowOf ''Mon'' ''P1'' ''T'')) = 30" by simp
  have h2: "\<forall>row \<in> set (replicate 30 (rowOf ''Mon'' ''P1'' ''T'')).
      day row = ''Mon'' \<and> period row = ''P1'' \<and> teacher row = Some ''T''"
    by (simp add: rowOf_def)
  then have h2': "list_all (\<lambda>row. day row = ''Mon'' \<and> period row = ''P1'' \<and> teacher row = Some ''T'')
       (replicate 30 (rowOf ''Mon'' ''P1'' ''T''))"
    unfolding list_all_iff .
  show ?thesis
    using thirty_rows_fill_the_grid[OF h1 h2] h1 h2' by blast
qed

end
